theory Spec2Isabelle
  imports Main "HOL-Library.Word"
begin

unbundle bit_operations_syntax

section \<open>Data model\<close>

text \<open>
  A Python \<open>str\<close> is a sequence of Unicode code points and a Python \<open>bytes\<close> object a
  sequence of octets. Everything the script prints is a \<open>str\<close>; what \<open>b64decode\<close>
  returns is \<open>bytes\<close>.
\<close>

type_synonym codepoint = nat
type_synonym pystr = "codepoint list"
type_synonym byte = "8 word"

text \<open>A string literal of the source, as the code points of its characters.\<close>

definition lit :: "string \<Rightarrow> pystr" where
  "lit s = map of_char s"

text \<open>
  The exceptions the script distinguishes: \<open>FileNotFoundError\<close> has a handler of its own,
  every other subclass of \<open>Exception\<close> is caught by the second handler and printed through
  its message, and \<open>SystemExit\<close> (raised by \<open>sys.exit\<close>) is not a subclass of
  \<open>Exception\<close> and so passes both handlers.
\<close>

datatype exn = FileNotFoundError | Exception pystr | SystemExit nat

text \<open>
  What \<open>open(path, 'r')\<close> followed by \<open>f.read()\<close> yields for a path:
  \<^item> \<open>FileNotFound\<close>: nothing exists at the path and \<open>open\<close> raises
    \<open>FileNotFoundError\<close> (errno ENOENT);
  \<^item> \<open>NotResolved msg\<close>: the path leads to no file either, but the operating system
    reports another error, so \<open>open\<close> raises an \<open>OSError\<close> that is not a
    \<open>FileNotFoundError\<close> (\<open>NotADirectoryError\<close> for a path that runs through a regular
    file, \<open>OSError\<close> for a name that is too long), with \<open>str(e) = msg\<close>;
  \<^item> \<open>ReadError msg\<close>: something exists at the path but cannot be read as text
    (permission denied, a directory, undecodable bytes), with \<open>str(e) = msg\<close>;
  \<^item> \<open>Content text\<close>: the text of the file.
\<close>

datatype read_result = FileNotFound | NotResolved pystr | ReadError pystr | Content pystr

type_synonym filesystem = "pystr \<Rightarrow> read_result"

text \<open>The two output channels while the script runs, and what the process leaves behind.\<close>

record io =
  stdout :: pystr
  stderr :: pystr

record outcome =
  out :: pystr
  err :: pystr
  exit_status :: nat

section \<open>The Python library functions the script calls\<close>

subsection \<open>Formatting\<close>

text \<open>Decimal formatting of a non-negative integer, as an f-string does for \<open>len(data)\<close>.\<close>

fun str_nat :: "nat \<Rightarrow> pystr" where
  "str_nat n = (if n < 10 then [48 + n] else str_nat (n div 10) @ [48 + n mod 10])"

declare str_nat.simps [simp del]

text \<open>\<open>print(s)\<close> and \<open>print(s, file=sys.stderr)\<close>: the text and a newline.\<close>

definition print_stdout :: "pystr \<Rightarrow> io \<Rightarrow> io" where
  "print_stdout s w = w\<lparr>stdout := stdout w @ s @ [10]\<rparr>"

definition print_stderr :: "pystr \<Rightarrow> io \<Rightarrow> io" where
  "print_stderr s w = w\<lparr>stderr := stderr w @ s @ [10]\<rparr>"

subsection \<open>\<open>str.strip\<close>\<close>

text \<open>
  The code points for which \<open>str.isspace\<close> holds: these are what \<open>strip()\<close> without an
  argument removes from both ends.
\<close>

definition isspace :: "codepoint \<Rightarrow> bool" where
  "isspace c \<longleftrightarrow>
     (9 \<le> c \<and> c \<le> 13) \<or> (28 \<le> c \<and> c \<le> 32) \<or> c = 133 \<or> c = 160 \<or> c = 5760 \<or>
     (8192 \<le> c \<and> c \<le> 8202) \<or> c = 8232 \<or> c = 8233 \<or> c = 8239 \<or> c = 8287 \<or> c = 12288"

definition strip :: "pystr \<Rightarrow> pystr" where
  "strip s = rev (dropWhile isspace (rev (dropWhile isspace s)))"

subsection \<open>\<open>bytes.hex\<close>\<close>

definition hex_digit :: "nat \<Rightarrow> codepoint" where
  "hex_digit n = (if n < 10 then 48 + n else 87 + n)"

definition hex_byte :: "byte \<Rightarrow> pystr" where
  "hex_byte b = [hex_digit (unat b div 16), hex_digit (unat b mod 16)]"

definition bytes_hex :: "byte list \<Rightarrow> pystr" where
  "bytes_hex bs = concat (map hex_byte bs)"

subsection \<open>\<open>base64.b64decode\<close>\<close>

text \<open>
  \<open>base64.b64decode(s)\<close> with a \<open>str\<close> argument first encodes it as ASCII, turning the
  \<open>UnicodeEncodeError\<close> into a \<open>ValueError\<close>, and then calls \<open>binascii.a2b_base64\<close> in
  its default, non-strict mode.
\<close>

definition bytes_from_decode_data :: "pystr \<Rightarrow> exn + byte list" where
  "bytes_from_decode_data s =
     (if list_all (\<lambda>c. c < 128) s then Inr (map of_nat s)
      else Inl (Exception (lit ''string argument should contain only ASCII characters'')))"

definition BASE64_PAD :: byte where
  "BASE64_PAD = 61"

text \<open>
  The decoding table of \<open>binascii\<close>: the value of each alphabet character, 0 for the pad
  character, and 255 (the \<open>-1\<close> of the C table, as an unsigned char) for everything else.
\<close>

definition table_a2b_base64 :: "byte \<Rightarrow> byte" where
  "table_a2b_base64 c =
     (let n = unat c in
      if 65 \<le> n \<and> n \<le> 90 then of_nat (n - 65)
      else if 97 \<le> n \<and> n \<le> 122 then of_nat (n - 71)
      else if 48 \<le> n \<and> n \<le> 57 then of_nat (n + 4)
      else if n = 43 then 62
      else if n = 47 then 63
      else if n = 61 then 0
      else 255)"

text \<open>
  The loop of \<open>a2b_base64\<close> (CPython 3.11) over the input, with its local variables \<open>quad_pos\<close>,
  \<open>leftchar\<close> and \<open>pads\<close> and the bytes written so far. A pad character ends the
  decoding once it completes a quad and is skipped otherwise; \<open>pads\<close> is incremented only
  where \<open>quad_pos >= 2\<close>, as the short-circuit conjunction of the C code does. A character
  outside the alphabet is skipped. When the input ends inside a quad the decoder raises
  \<open>binascii.Error\<close>.
\<close>

fun a2b_loop :: "nat \<Rightarrow> byte \<Rightarrow> nat \<Rightarrow> byte list \<Rightarrow> byte list \<Rightarrow> exn + byte list" where
  "a2b_loop quad_pos leftchar pads bin [] =
     (if quad_pos \<noteq> 0 then
        (if quad_pos = 1 then
           Inl (Exception (lit ''Invalid base64-encoded string: number of data characters (''
                  @ str_nat (length bin div 3 * 4 + 1)
                  @ lit '') cannot be 1 more than a multiple of 4''))
         else Inl (Exception (lit ''Incorrect padding'')))
      else Inr bin)"
| "a2b_loop quad_pos leftchar pads bin (c # cs) =
     (if c = BASE64_PAD then
        (if quad_pos \<ge> 2 then
           (if quad_pos + (pads + 1) \<ge> 4 then Inr bin
            else a2b_loop quad_pos leftchar (pads + 1) bin cs)
         else a2b_loop quad_pos leftchar pads bin cs)
      else
        (let this_ch = table_a2b_base64 c in
         if this_ch \<ge> 64 then a2b_loop quad_pos leftchar pads bin cs
         else if quad_pos = 0 then a2b_loop 1 this_ch 0 bin cs
         else if quad_pos = 1 then
           a2b_loop 2 (this_ch AND 0x0f) 0 (bin @ [push_bit 2 leftchar OR drop_bit 4 this_ch]) cs
         else if quad_pos = 2 then
           a2b_loop 3 (this_ch AND 0x03) 0 (bin @ [push_bit 4 leftchar OR drop_bit 2 this_ch]) cs
         else a2b_loop 0 0 0 (bin @ [push_bit 6 leftchar OR this_ch]) cs))"

declare a2b_loop.simps [simp del]

definition a2b_base64 :: "byte list \<Rightarrow> exn + byte list" where
  "a2b_base64 ascii_data = a2b_loop 0 0 0 [] ascii_data"

definition b64decode :: "pystr \<Rightarrow> exn + byte list" where
  "b64decode s =
     (case bytes_from_decode_data s of
        Inl e \<Rightarrow> Inl e
      | Inr bs \<Rightarrow> a2b_base64 bs)"

section \<open>The script\<close>

text \<open>
  The body of the \<open>try\<close> block of \<open>extract_private_key\<close>: read and strip the file, decode
  it, check the length, slice \<open>data[1:33]\<close> and print its hex form. The result is the
  exception that leaves the block, if any, and the output written so far.
\<close>

definition extract_private_key_body :: "filesystem \<Rightarrow> pystr \<Rightarrow> io \<Rightarrow> (exn + unit) \<times> io" where
  "extract_private_key_body fs key_file_path w =
     (case fs key_file_path of
        FileNotFound \<Rightarrow> (Inl FileNotFoundError, w)
      | NotResolved msg \<Rightarrow> (Inl (Exception msg), w)
      | ReadError msg \<Rightarrow> (Inl (Exception msg), w)
      | Content text \<Rightarrow>
          (let key_data = strip text in
           case b64decode key_data of
             Inl e \<Rightarrow> (Inl e, w)
           | Inr data \<Rightarrow>
               if length data < 33 then
                 (Inl (SystemExit 1),
                  print_stderr (lit ''ERROR: Decoded data too short: '' @ str_nat (length data)
                                @ lit '' bytes (expected at least 33)'') w)
               else
                 (let private_key_bytes = take 32 (drop 1 data);
                      private_key_hex = bytes_hex private_key_bytes
                  in (Inr (), print_stdout private_key_hex w))))"

text \<open>The \<open>try\<close> statement with its two handlers; \<open>SystemExit\<close> passes through.\<close>

definition extract_private_key :: "filesystem \<Rightarrow> pystr \<Rightarrow> io \<Rightarrow> (exn + unit) \<times> io" where
  "extract_private_key fs key_file_path w =
     (case extract_private_key_body fs key_file_path w of
        (Inl FileNotFoundError, w') \<Rightarrow>
          (Inl (SystemExit 1),
           print_stderr (lit ''ERROR: Key file not found: '' @ key_file_path) w')
      | (Inl (Exception e), w') \<Rightarrow>
          (Inl (SystemExit 1), print_stderr (lit ''ERROR: '' @ e) w')
      | r \<Rightarrow> r)"

text \<open>
  How the process ends: \<open>SystemExit\<close> sets the exit status, a normal return gives 0. The
  other two exceptions never reach this point, since \<open>extract_private_key\<close> handles them;
  an uncaught exception makes the interpreter exit with status 1.
\<close>

definition finish :: "(exn + unit) \<times> io \<Rightarrow> outcome" where
  "finish r =
     (case r of
        (Inr _, w) \<Rightarrow> \<lparr>out = stdout w, err = stderr w, exit_status = 0\<rparr>
      | (Inl (SystemExit n), w) \<Rightarrow> \<lparr>out = stdout w, err = stderr w, exit_status = n\<rparr>
      | (Inl _, w) \<Rightarrow> \<lparr>out = stdout w, err = stderr w, exit_status = 1\<rparr>)"

text \<open>
  The \<open>__main__\<close> block. \<open>sys.argv\<close> is the script name \<open>prog\<close> followed by the
  command-line arguments \<open>args\<close>.
\<close>

definition main :: "pystr \<Rightarrow> pystr list \<Rightarrow> filesystem \<Rightarrow> outcome" where
  "main prog args fs =
     (let sys_argv = prog # args; w = \<lparr>stdout = [], stderr = []\<rparr> in
      if length sys_argv \<noteq> 2 then
        finish (Inl (SystemExit 1),
                print_stderr (lit ''Usage: '' @ sys_argv ! 0 @ lit '' <key_file_path>'') w)
      else
        (let key_file_path = sys_argv ! 1 in
         finish (extract_private_key fs key_file_path w)))"

section \<open>Notions of the specification\<close>

text \<open>
  Standard base64 encoding (RFC 4648, section 4), as \<open>base64.b64encode\<close> produces it:
  the alphabet \<open>A-Z a-z 0-9 + /\<close> indexed by a 6-bit value, three octets to four
  characters, and \<open>=\<close> padding for a final group of one or two octets.
\<close>

definition table_b2a_base64 :: "byte \<Rightarrow> codepoint" where
  "table_b2a_base64 v =
     (let n = unat v in
      if n < 26 then 65 + n
      else if n < 52 then 71 + n
      else if n < 62 then n - 4
      else if n = 62 then 43
      else 47)"

fun b64encode :: "byte list \<Rightarrow> pystr" where
  "b64encode (a # b # c # rest) =
     [table_b2a_base64 (drop_bit 2 a),
      table_b2a_base64 (push_bit 4 (a AND 0x03) OR drop_bit 4 b),
      table_b2a_base64 (push_bit 2 (b AND 0x0f) OR drop_bit 6 c),
      table_b2a_base64 (c AND 0x3f)] @ b64encode rest"
| "b64encode [a, b] =
     [table_b2a_base64 (drop_bit 2 a),
      table_b2a_base64 (push_bit 4 (a AND 0x03) OR drop_bit 4 b),
      table_b2a_base64 (push_bit 2 (b AND 0x0f)),
      61]"
| "b64encode [a] =
     [table_b2a_base64 (drop_bit 2 a),
      table_b2a_base64 (push_bit 4 (a AND 0x03)),
      61, 61]"
| "b64encode [] = []"

text \<open>A character of the base64 alphabet (the pad character \<open>=\<close> is not one).\<close>

definition base64_char :: "codepoint \<Rightarrow> bool" where
  "base64_char c \<longleftrightarrow>
     (65 \<le> c \<and> c \<le> 90) \<or> (97 \<le> c \<and> c \<le> 122) \<or> (48 \<le> c \<and> c \<le> 57) \<or> c = 43 \<or> c = 47"

text \<open>
  Valid base64 text: a whole number of four-character groups, made of alphabet characters
  followed by at most two pad characters and nothing else.
\<close>

definition valid_base64 :: "pystr \<Rightarrow> bool" where
  "valid_base64 s \<longleftrightarrow>
     length s mod 4 = 0 \<and>
     list_all base64_char (takeWhile (\<lambda>c. c \<noteq> 61) s) \<and>
     length (dropWhile (\<lambda>c. c \<noteq> 61) s) \<le> 2 \<and>
     list_all (\<lambda>c. c = 61) (dropWhile (\<lambda>c. c \<noteq> 61) s)"

text \<open>A lowercase hexadecimal digit: \<open>0-9\<close> or \<open>a-f\<close>.\<close>

definition is_lower_hex :: "codepoint \<Rightarrow> bool" where
  "is_lower_hex c \<longleftrightarrow> (48 \<le> c \<and> c \<le> 57) \<or> (97 \<le> c \<and> c \<le> 102)"

text \<open>
  Reading hexadecimal text back: the value of a hex digit, and the octets that a text of
  digit pairs denotes, the first digit of a pair being the high half (what
  \<open>bytes.fromhex\<close> computes). A text of lowercase hex digits that reads back as \<open>bs\<close>
  is the lowercase hex encoding of \<open>bs\<close>.
\<close>

definition hex_value :: "codepoint \<Rightarrow> nat option" where
  "hex_value c =
     (if 48 \<le> c \<and> c \<le> 57 then Some (c - 48)
      else if 97 \<le> c \<and> c \<le> 102 then Some (c - 87)
      else if 65 \<le> c \<and> c \<le> 70 then Some (c - 55)
      else None)"

fun hex_decode :: "pystr \<Rightarrow> byte list option" where
  "hex_decode [] = Some []"
| "hex_decode [c] = None"
| "hex_decode (hi # lo # cs) =
     (case (hex_value hi, hex_value lo, hex_decode cs) of
        (Some h, Some l, Some bs) \<Rightarrow> Some (of_nat (16 * h + l) # bs)
      | _ \<Rightarrow> None)"

text \<open>
  Decimal numerals: \<open>s\<close> is the decimal numeral of \<open>n\<close> when it is a non-empty text of
  digits, without a leading zero unless it is \<open>0\<close> itself, whose value in base ten is
  \<open>n\<close>.
\<close>

definition is_digit :: "codepoint \<Rightarrow> bool" where
  "is_digit c \<longleftrightarrow> 48 \<le> c \<and> c \<le> 57"

definition decimal_value :: "pystr \<Rightarrow> nat" where
  "decimal_value s = foldl (\<lambda>a c. 10 * a + (c - 48)) 0 s"

definition is_decimal_of :: "pystr \<Rightarrow> nat \<Rightarrow> bool" where
  "is_decimal_of s n \<longleftrightarrow>
     s \<noteq> [] \<and> list_all is_digit s \<and> (s = [48] \<or> hd s \<noteq> 48) \<and> decimal_value s = n"

text \<open>
  How a text reads as base64 data, from the text alone. \<open>data_count\<close> is the number of
  alphabet characters. A pad character \<open>=\<close> closes a group when it comes after
  \<open>4k + 3\<close> alphabet characters, or after \<open>4k + 2\<close> alphabet characters when another
  pad character already stands between the last alphabet character and it;
  \<open>padded_end s\<close> says that some pad character of \<open>s\<close> closes a group.
\<close>

definition data_count :: "pystr \<Rightarrow> nat" where
  "data_count s = length (filter base64_char s)"

definition pad_pending :: "pystr \<Rightarrow> bool" where
  "pad_pending s \<longleftrightarrow> 61 \<in> set (takeWhile (\<lambda>c. \<not> base64_char c) (rev s))"

definition closes_quad :: "pystr \<Rightarrow> bool" where
  "closes_quad s \<longleftrightarrow>
     data_count s mod 4 = 3 \<or> (data_count s mod 4 = 2 \<and> pad_pending s)"

definition padded_end :: "pystr \<Rightarrow> bool" where
  "padded_end s \<longleftrightarrow> list_ex (\<lambda>i. s ! i = 61 \<and> closes_quad (take i s)) [0..<length s]"

text \<open>
  The same for a text \<open>cs\<close> that follows an already read text \<open>p\<close>: some pad
  character of \<open>cs\<close> closes a group. \<open>padded_end s\<close> is \<open>closing_pad [] s\<close>.
\<close>

definition closing_pad :: "pystr \<Rightarrow> pystr \<Rightarrow> bool" where
  "closing_pad p cs \<longleftrightarrow>
     list_ex (\<lambda>i. cs ! i = 61 \<and> closes_quad (p @ take i cs)) [0..<length cs]"

text \<open>
  The message of \<open>binascii.Error\<close> for a text whose alphabet characters do not fill
  whole groups.
\<close>

definition incomplete_message :: "pystr \<Rightarrow> pystr" where
  "incomplete_message s =
     (if data_count s mod 4 = 1 then
        lit ''Invalid base64-encoded string: number of data characters (''
          @ str_nat (data_count s) @ lit '') cannot be 1 more than a multiple of 4''
      else lit ''Incorrect padding'')"

text \<open>Whether a path leads to a file, by what the file system answers for it.\<close>

definition resolves_to_file :: "read_result \<Rightarrow> bool" where
  "resolves_to_file r =
     (case r of FileNotFound \<Rightarrow> False | NotResolved _ \<Rightarrow> False
      | ReadError _ \<Rightarrow> True | Content _ \<Rightarrow> True)"

section \<open>Example inputs\<close>

text \<open>A file system with one file: \<open>path\<close> holds \<open>text\<close>, every other path is missing.\<close>

definition single_file :: "pystr \<Rightarrow> pystr \<Rightarrow> filesystem" where
  "single_file path text = (\<lambda>p. if p = path then Content text else FileNotFound)"

text \<open>
  The scenario of the specification: the flag byte \<open>0x00\<close> followed by the 32 bytes
  \<open>0x01..0x20\<close>, and its base64 encoding.
\<close>

definition scenario_payload :: "byte list" where
  "scenario_payload = 0x00 # map of_nat [0x01 ..< 0x21]"

definition scenario_text :: pystr where
  "scenario_text = lit ''AAECAwQFBgcICQoLDA0ODxAREhMUFRYXGBkaGxwdHh8g''"

definition scenario_hex :: pystr where
  "scenario_hex = lit ''0102030405060708090a0b0c0d0e0f101112131415161718191a1b1c1d1e1f20''"

text \<open>
  The same key material behind another flag byte (\<open>0xff\<close>) and followed by two more
  bytes: the base64 encoding of \<open>ff 01 02 .. 20 07 07\<close>.
\<close>

definition other_flag_text :: pystr where
  "other_flag_text = lit ''/wECAwQFBgcICQoLDA0ODxAREhMUFRYXGBkaGxwdHh8gBwc=''"

text \<open>
  The second scenario of the specification: the base64 encoding of 32 zero bytes, one byte
  short of the minimum.
\<close>

definition zeros_text :: pystr where
  "zeros_text = lit ''AAAAAAAAAAAAAAAAAAAAAAAAAAAAAAAAAAAAAAAAAAA=''"

text \<open>
  The scenario text with a character outside the base64 alphabet put in after the first
  group, and the scenario text cut one character short.
\<close>

definition noisy_text :: pystr where
  "noisy_text = lit ''AAEC!AwQFBgcICQoLDA0ODxAREhMUFRYXGBkaGxwdHh8g''"

definition truncated_text :: pystr where
  "truncated_text = lit ''AAECAwQFBgcICQoLDA0ODxAREhMUFRYXGBkaGxwdHh8''"

text \<open>
  A file system in which \<open>regular.key\<close> is a regular file holding the scenario text, so
  that the path \<open>regular.key/x\<close> runs through a regular file, and nothing else exists.
\<close>

definition notdir_path :: pystr where
  "notdir_path = lit ''regular.key/x''"

definition notdir_message :: pystr where
  "notdir_message = lit ''[Errno 20] Not a directory: '' @ [39] @ notdir_path @ [39]"

definition notdir_fs :: filesystem where
  "notdir_fs =
     (\<lambda>p. if p = lit ''regular.key'' then Content scenario_text
          else if p = notdir_path then NotResolved notdir_message
          else FileNotFound)"

text \<open>
  The scenario text followed by a non-ASCII character (\<open>U+00E9\<close>), and a text of five
  alphabet characters.
\<close>

definition nonascii_text :: pystr where
  "nonascii_text = scenario_text @ [233]"

definition one_over_text :: pystr where
  "one_over_text = lit ''AAAAA''"

definition script_name :: pystr where
  "script_name = lit ''./extract_privatekey.py''"

definition key_path :: pystr where
  "key_path = lit ''starcoin_client.key''"

section \<open>Properties of the decoder\<close>

subsection \<open>Bit arithmetic on octets\<close>

lemma bit_index_cases: "n < LENGTH(8) \<Longrightarrow> n \<in> {7, 6, 5, 4, 3, 2, 1, 0::nat}"
  by simp arith

lemma join_first_octet: "push_bit 2 (drop_bit 2 a) OR drop_bit 4 (push_bit 4 (a AND 0x03) OR drop_bit 4 b) = (a::byte)"
  apply (rule bit_word_eqI)
  subgoal for n
    apply (drule bit_index_cases)
    apply (elim insertE emptyE; simp add: bit_simps)
    done
  done

lemma join_second_octet: "push_bit 4 ((push_bit 4 (a AND 0x03) OR drop_bit 4 b) AND 0x0f) OR drop_bit 2 (push_bit 2 (b AND 0x0f) OR drop_bit 6 c) = (b::byte)"
  apply (rule bit_word_eqI)
  subgoal for n
    apply (drule bit_index_cases)
    apply (elim insertE emptyE; simp add: bit_simps)
    done
  done

lemma join_third_octet: "push_bit 6 ((push_bit 2 (b AND 0x0f) OR drop_bit 6 c) AND 0x03) OR (c AND 0x3f) = (c::byte)"
  apply (rule bit_word_eqI)
  subgoal for n
    apply (drule bit_index_cases)
    apply (elim insertE emptyE; simp add: bit_simps)
    done
  done

lemma join_second_octet_padded: "push_bit 4 ((push_bit 4 (a AND 0x03) OR drop_bit 4 b) AND 0x0f) OR drop_bit 2 (push_bit 2 (b AND 0x0f)) = (b::byte)"
  apply (rule bit_word_eqI)
  subgoal for n
    apply (drule bit_index_cases)
    apply (elim insertE emptyE; simp add: bit_simps)
    done
  done

lemma join_first_octet_padded: "push_bit 2 (drop_bit 2 a) OR drop_bit 4 (push_bit 4 (a AND 0x03)) = (a::byte)"
  apply (rule bit_word_eqI)
  subgoal for n
    apply (drule bit_index_cases)
    apply (elim insertE emptyE; simp add: bit_simps)
    done
  done



subsection \<open>The two tables are inverse to each other\<close>

lemma sextet_le: "v AND 0x3f = v \<Longrightarrow> v \<le> (63::byte)"
  by (metis word_and_le1)

lemma unat_of_nat_byte: "m < 256 \<Longrightarrow> unat (of_nat m :: byte) = m"
  by (simp add: unat_of_nat)

lemma b2a_range: "table_b2a_base64 v < 128"
  by (auto simp: table_b2a_base64_def Let_def)

lemma b2a_base64_char: "base64_char (table_b2a_base64 v)"
  by (auto simp: table_b2a_base64_def base64_char_def Let_def)

lemma a2b_of_nat:
  "m < 256 \<Longrightarrow>
   table_a2b_base64 (of_nat m) =
     (if 65 \<le> m \<and> m \<le> 90 then of_nat (m - 65)
      else if 97 \<le> m \<and> m \<le> 122 then of_nat (m - 71)
      else if 48 \<le> m \<and> m \<le> 57 then of_nat (m + 4)
      else if m = 43 then 62
      else if m = 47 then 63
      else if m = 61 then 0
      else 255)"
  by (simp only: table_a2b_base64_def Let_def unat_of_nat_byte)

lemma a2b_digit:
  "48 \<le> m \<Longrightarrow> m \<le> 57 \<Longrightarrow> table_a2b_base64 (of_nat m) = of_nat (m + 4)"
  by (subst a2b_of_nat) simp_all

lemma b2a_of_nat:
  "n < 256 \<Longrightarrow>
   table_b2a_base64 (of_nat n) =
     (if n < 26 then 65 + n
      else if n < 52 then 71 + n
      else if n < 62 then n - 4
      else if n = 62 then 43
      else 47)"
  by (simp only: table_b2a_base64_def Let_def unat_of_nat_byte)

lemma a2b_b2a_nat:
  assumes "n \<le> 63"
  shows "table_a2b_base64 (of_nat (table_b2a_base64 (of_nat n))) = of_nat n"
proof -
  have n: "n < 256" using assms by simp
  consider "n < 26" | "26 \<le> n" "n < 52" | "52 \<le> n" "n < 62" | "n = 62" | "n = 63"
    using assms by linarith
  then show ?thesis
  proof cases
    case 1
    then have "table_b2a_base64 (of_nat n) = 65 + n" by (simp add: b2a_of_nat [OF n])
    moreover have "table_a2b_base64 (of_nat (65 + n)) = of_nat n"
      using 1 by (subst a2b_of_nat) simp_all
    ultimately show ?thesis by simp
  next
    case 2
    then have "table_b2a_base64 (of_nat n) = 71 + n" by (simp add: b2a_of_nat [OF n])
    moreover have "table_a2b_base64 (of_nat (71 + n)) = of_nat n"
      using 2 by (subst a2b_of_nat) simp_all
    ultimately show ?thesis by simp
  next
    case 3
    then have "table_b2a_base64 (of_nat n) = n - 4" by (simp add: b2a_of_nat [OF n])
    moreover have "table_a2b_base64 (of_nat (n - 4)) = of_nat n"
      using 3 a2b_digit [of "n - 4"] by simp
    ultimately show ?thesis by simp
  next
    case 4
    then show ?thesis
      by (simp add: table_b2a_base64_def table_a2b_base64_def)
  next
    case 5
    then show ?thesis
      by (simp add: table_b2a_base64_def table_a2b_base64_def)
  qed
qed

lemma a2b_b2a:
  assumes "v \<le> (63::byte)"
  shows "table_a2b_base64 (of_nat (table_b2a_base64 v)) = v"
proof -
  from assms have "unat v \<le> 63" by (simp add: word_le_nat_alt)
  from a2b_b2a_nat [OF this] show ?thesis by simp
qed

lemma b2a_not_pad: "of_nat (table_b2a_base64 v) \<noteq> BASE64_PAD"
proof -
  have "unat (of_nat (table_b2a_base64 v) :: byte) = table_b2a_base64 v"
    using b2a_range [of v] by (simp add: unat_of_nat_byte)
  moreover have "table_b2a_base64 v \<noteq> 61"
    by (auto simp: table_b2a_base64_def Let_def)
  ultimately show ?thesis
    by (auto simp: BASE64_PAD_def)
qed

lemma b2a_not_space: "\<not> isspace (table_b2a_base64 v)"
  by (auto simp: table_b2a_base64_def isspace_def Let_def)


subsection \<open>Decoding what the encoder wrote\<close>

lemma sextet1: "drop_bit 2 a \<le> (63::byte)"
  apply (rule sextet_le)
  apply (rule bit_word_eqI)
  subgoal for n
    apply (drule bit_index_cases)
    apply (elim insertE emptyE; auto simp add: bit_simps dest: bit_imp_le_length)
    done
  done

lemma sextet2: "push_bit 4 (a AND 0x03) OR drop_bit 4 b \<le> (63::byte)"
  apply (rule sextet_le)
  apply (rule bit_word_eqI)
  subgoal for n
    apply (drule bit_index_cases)
    apply (elim insertE emptyE; auto simp add: bit_simps dest: bit_imp_le_length)
    done
  done

lemma sextet3: "push_bit 2 (b AND 0x0f) OR drop_bit 6 c \<le> (63::byte)"
  apply (rule sextet_le)
  apply (rule bit_word_eqI)
  subgoal for n
    apply (drule bit_index_cases)
    apply (elim insertE emptyE; auto simp add: bit_simps dest: bit_imp_le_length)
    done
  done

lemma sextet4: "c AND 0x3f \<le> (63::byte)"
  by (rule word_and_le1)

lemma sextet2_padded: "push_bit 4 (a AND 0x03) \<le> (63::byte)"
  using sextet2 [of a 0] by simp

lemma sextet3_padded: "push_bit 2 (b AND 0x0f) \<le> (63::byte)"
  using sextet3 [of b 0] by simp

lemma a2b_loop_pad:
  "a2b_loop q l p bin (BASE64_PAD # cs) =
     (if 2 \<le> q then (if 4 \<le> q + (p + 1) then Inr bin else a2b_loop q l (p + 1) bin cs)
      else a2b_loop q l p bin cs)"
  by (simp add: a2b_loop.simps)

lemma a2b_loop_alphabet:
  assumes "v \<le> (63::byte)"
  shows "a2b_loop q l p bin (of_nat (table_b2a_base64 v) # cs) =
     (if q = 0 then a2b_loop 1 v 0 bin cs
      else if q = 1 then a2b_loop 2 (v AND 0x0f) 0 (bin @ [push_bit 2 l OR drop_bit 4 v]) cs
      else if q = 2 then a2b_loop 3 (v AND 0x03) 0 (bin @ [push_bit 4 l OR drop_bit 2 v]) cs
      else a2b_loop 0 0 0 (bin @ [push_bit 6 l OR v]) cs)"
proof -
  have "\<not> 64 \<le> v"
    using assms by (simp add: word_le_nat_alt)
  then show ?thesis
    by (simp add: a2b_loop.simps a2b_b2a [OF assms] b2a_not_pad)
qed

lemma a2b_loop_four:
  assumes "v1 \<le> (63::byte)" "v2 \<le> (63::byte)" "v3 \<le> (63::byte)" "v4 \<le> (63::byte)"
  shows "a2b_loop 0 l p bin
           (of_nat (table_b2a_base64 v1) # of_nat (table_b2a_base64 v2) #
            of_nat (table_b2a_base64 v3) # of_nat (table_b2a_base64 v4) # cs) =
         a2b_loop 0 0 0
           (bin @ [push_bit 2 v1 OR drop_bit 4 v2, push_bit 4 (v2 AND 0x0f) OR drop_bit 2 v3,
                   push_bit 6 (v3 AND 0x03) OR v4]) cs"
  using assms by (simp add: a2b_loop_alphabet)

lemma a2b_loop_three_pad:
  assumes "v1 \<le> (63::byte)" "v2 \<le> (63::byte)" "v3 \<le> (63::byte)"
  shows "a2b_loop 0 l p bin
           [of_nat (table_b2a_base64 v1), of_nat (table_b2a_base64 v2),
            of_nat (table_b2a_base64 v3), BASE64_PAD] =
         Inr (bin @ [push_bit 2 v1 OR drop_bit 4 v2, push_bit 4 (v2 AND 0x0f) OR drop_bit 2 v3])"
  using assms by (simp add: a2b_loop_alphabet a2b_loop_pad)

lemma a2b_loop_two_pad:
  assumes "v1 \<le> (63::byte)" "v2 \<le> (63::byte)"
  shows "a2b_loop 0 l p bin
           [of_nat (table_b2a_base64 v1), of_nat (table_b2a_base64 v2), BASE64_PAD, BASE64_PAD] =
         Inr (bin @ [push_bit 2 v1 OR drop_bit 4 v2])"
  using assms by (simp add: a2b_loop_alphabet a2b_loop_pad)

lemma pad_char: "(of_nat 61 :: byte) = BASE64_PAD"
  by (simp add: BASE64_PAD_def)

lemma a2b_loop_quad:
  "a2b_loop 0 l p bin (map of_nat (b64encode [a, b, c]) @ cs) = a2b_loop 0 0 0 (bin @ [a, b, c]) cs"
  by (simp only: b64encode.simps list.map append.simps
      a2b_loop_four [OF sextet1 sextet2 sextet3 sextet4] join_first_octet join_second_octet join_third_octet)

lemma a2b_loop_pad2:
  "a2b_loop 0 l p bin (map of_nat (b64encode [a, b])) = Inr (bin @ [a, b])"
  by (simp only: b64encode.simps list.map pad_char
      a2b_loop_three_pad [OF sextet1 sextet2 sextet3_padded] join_first_octet join_second_octet_padded)

lemma a2b_loop_pad1:
  "a2b_loop 0 l p bin (map of_nat (b64encode [a])) = Inr (bin @ [a])"
  by (simp only: b64encode.simps list.map pad_char
      a2b_loop_two_pad [OF sextet1 sextet2_padded] join_first_octet_padded)

lemma a2b_loop_b64encode:
  "a2b_loop 0 l p bin (map of_nat (b64encode B)) = Inr (bin @ B)"
proof (induction B arbitrary: l p bin rule: b64encode.induct)
  case (1 a b c rest)
  have "a2b_loop 0 l p bin (map of_nat (b64encode (a # b # c # rest))) =
        a2b_loop 0 l p bin (map of_nat (b64encode [a, b, c]) @ map of_nat (b64encode rest))"
    by simp
  also have "\<dots> = a2b_loop 0 0 0 (bin @ [a, b, c]) (map of_nat (b64encode rest))"
    by (rule a2b_loop_quad)
  also have "\<dots> = Inr ((bin @ [a, b, c]) @ rest)"
    by (rule "1.IH")
  finally show ?case by simp
next
  case (2 a b)
  show ?case by (rule a2b_loop_pad2)
next
  case (3 a)
  show ?case by (rule a2b_loop_pad1)
next
  case 4
  show ?case by (simp add: a2b_loop.simps)
qed

lemma b64encode_ascii: "list_all (\<lambda>c. c < 128) (b64encode B)"
  by (induction B rule: b64encode.induct) (simp_all add: b2a_range)

lemma b64decode_b64encode: "b64decode (b64encode B) = Inr B"
  by (simp add: b64decode_def bytes_from_decode_data_def b64encode_ascii a2b_base64_def
      a2b_loop_b64encode)

lemma b64encode_no_space: "list_all (\<lambda>c. \<not> isspace c) (b64encode B)"
proof (induction B rule: b64encode.induct)
  case (1 a b c rest)
  then show ?case by (simp add: b2a_not_space)
next
  case (2 a b)
  show ?case by (simp add: b2a_not_space) (simp add: isspace_def)
next
  case (3 a)
  show ?case by (simp add: b2a_not_space) (simp add: isspace_def)
next
  case 4
  show ?case by simp
qed

lemma dropWhile_none: "list_all (\<lambda>c. \<not> P c) xs \<Longrightarrow> dropWhile P xs = xs"
  by (cases xs) simp_all

lemma strip_no_space:
  assumes "list_all (\<lambda>c. \<not> isspace c) s"
  shows "strip s = s"
proof -
  have "list_all (\<lambda>c. \<not> isspace c) (rev s)"
    using assms by (simp add: list_all_iff)
  then show ?thesis
    using assms by (simp add: strip_def dropWhile_none)
qed

lemma strip_b64encode: "strip (b64encode B) = b64encode B"
  by (rule strip_no_space) (rule b64encode_no_space)

section \<open>The paths through the script\<close>

subsection \<open>One lemma for each way the script ends\<close>

lemma a2b_loop_error:
  "a2b_loop q l p bin cs = Inl e \<Longrightarrow> \<exists>m. e = Exception m"
  by (induction q l p bin cs rule: a2b_loop.induct) (auto simp: a2b_loop.simps Let_def split: if_splits)

lemma b64decode_error: "b64decode s = Inl e \<Longrightarrow> \<exists>m. e = Exception m"
  by (auto simp: b64decode_def bytes_from_decode_data_def a2b_base64_def
      split: if_splits sum.splits dest: a2b_loop_error)

lemma main_usage:
  "length args \<noteq> 1 \<Longrightarrow>
   main prog args fs =
     \<lparr>out = [], err = lit ''Usage: '' @ prog @ lit '' <key_file_path>'' @ [10], exit_status = 1\<rparr>"
  by (simp add: main_def finish_def print_stderr_def)

lemma main_not_found:
  "fs p = FileNotFound \<Longrightarrow>
   main prog [p] fs =
     \<lparr>out = [], err = lit ''ERROR: Key file not found: '' @ p @ [10], exit_status = 1\<rparr>"
  by (simp add: main_def finish_def print_stderr_def extract_private_key_def
      extract_private_key_body_def)

lemma main_read_error:
  "fs p = ReadError m \<Longrightarrow>
   main prog [p] fs = \<lparr>out = [], err = lit ''ERROR: '' @ m @ [10], exit_status = 1\<rparr>"
  by (simp add: main_def finish_def print_stderr_def extract_private_key_def
      extract_private_key_body_def)

lemma main_not_resolved:
  "fs p = NotResolved m \<Longrightarrow>
   main prog [p] fs = \<lparr>out = [], err = lit ''ERROR: '' @ m @ [10], exit_status = 1\<rparr>"
  by (simp add: main_def finish_def print_stderr_def extract_private_key_def
      extract_private_key_body_def)

lemma main_decode_error:
  "fs p = Content text \<Longrightarrow> b64decode (strip text) = Inl (Exception m) \<Longrightarrow>
   main prog [p] fs = \<lparr>out = [], err = lit ''ERROR: '' @ m @ [10], exit_status = 1\<rparr>"
  by (simp add: main_def finish_def print_stderr_def extract_private_key_def
      extract_private_key_body_def)

lemma main_too_short:
  "fs p = Content text \<Longrightarrow> b64decode (strip text) = Inr data \<Longrightarrow> length data < 33 \<Longrightarrow>
   main prog [p] fs =
     \<lparr>out = [],
      err = lit ''ERROR: Decoded data too short: '' @ str_nat (length data)
            @ lit '' bytes (expected at least 33)'' @ [10],
      exit_status = 1\<rparr>"
  by (simp add: main_def finish_def print_stderr_def extract_private_key_def
      extract_private_key_body_def)

lemma main_success:
  "fs p = Content text \<Longrightarrow> b64decode (strip text) = Inr data \<Longrightarrow> 33 \<le> length data \<Longrightarrow>
   main prog [p] fs =
     \<lparr>out = bytes_hex (take 32 (drop 1 data)) @ [10], err = [], exit_status = 0\<rparr>"
  by (simp add: main_def finish_def print_stdout_def extract_private_key_def
      extract_private_key_body_def)

subsection \<open>Stripping, hex digits and the two kinds of outcome\<close>

lemma dropWhile_all: "list_all P xs \<Longrightarrow> dropWhile P xs = []"
  by (induction xs) simp_all

lemma dropWhile_prefix: "list_all P xs \<Longrightarrow> dropWhile P (xs @ ys) = dropWhile P ys"
  by (induction xs) simp_all

lemma dropWhile_keeps_suffix:
  "\<not> list_all P xs \<Longrightarrow> dropWhile P (xs @ ys) = dropWhile P xs @ ys"
  by (induction xs) simp_all

lemma strip_all_space:
  assumes "list_all isspace t"
  shows "strip t = []"
  unfolding strip_def by (simp add: dropWhile_all [OF assms])

lemma strip_surround:
  assumes w1: "list_all isspace w1" and w2: "list_all isspace w2"
  shows "strip (w1 @ s @ w2) = strip s"
proof -
  have front: "dropWhile isspace (w1 @ s @ w2) = dropWhile isspace (s @ w2)"
    using w1 by (rule dropWhile_prefix)
  have rw2: "list_all isspace (rev w2)"
    using w2 by (simp add: list_all_iff)
  show ?thesis
  proof (cases "list_all isspace s")
    case True
    then have "list_all isspace (s @ w2)" using w2 by simp
    then have dw: "dropWhile isspace (s @ w2) = []" by (rule dropWhile_all)
    have "strip (w1 @ s @ w2) = []"
      by (simp only: strip_def front dw rev.simps dropWhile.simps)
    moreover have "strip s = []" using True by (rule strip_all_space)
    ultimately show ?thesis by simp
  next
    case False
    then have "dropWhile isspace (s @ w2) = dropWhile isspace s @ w2"
      by (rule dropWhile_keeps_suffix)
    then have "rev (dropWhile isspace (w1 @ s @ w2)) = rev w2 @ rev (dropWhile isspace s)"
      unfolding front by simp
    then show ?thesis
      unfolding strip_def by (simp only: dropWhile_prefix [OF rw2])
  qed
qed

lemma b64decode_empty: "b64decode [] = Inr []"
  by (simp add: b64decode_def bytes_from_decode_data_def a2b_base64_def a2b_loop.simps)

lemma hex_digit_lower: "n < 16 \<Longrightarrow> is_lower_hex (hex_digit n)"
  by (auto simp: hex_digit_def is_lower_hex_def)

lemma hex_byte_lower: "list_all is_lower_hex (hex_byte b)"
proof -
  have "unat b < 256" using unsigned_less [of b] by simp
  then have "unat b div 16 < 16" "unat b mod 16 < 16" by simp_all
  then show ?thesis by (simp add: hex_byte_def hex_digit_lower)
qed

lemma bytes_hex_lower: "list_all is_lower_hex (bytes_hex bs)"
  by (induction bs) (simp_all add: bytes_hex_def hex_byte_lower)

lemma length_bytes_hex: "length (bytes_hex bs) = 2 * length bs"
  by (induction bs) (simp_all add: bytes_hex_def hex_byte_def)

lemma main_outcome:
  "(\<exists>data. 33 \<le> length data \<and>
      main prog args fs =
        \<lparr>out = bytes_hex (take 32 (drop 1 data)) @ [10], err = [], exit_status = 0\<rparr>) \<or>
   (\<exists>msg. main prog args fs = \<lparr>out = [], err = msg @ [10], exit_status = 1\<rparr>)"
proof (cases "length args = 1")
  case False
  then show ?thesis by (simp add: main_usage)
next
  case True
  then obtain p where args: "args = [p]"
    by (cases args) simp_all
  show ?thesis
  proof (cases "fs p")
    case FileNotFound
    then show ?thesis unfolding args by (simp add: main_not_found)
  next
    case (NotResolved m)
    then show ?thesis unfolding args by (simp add: main_not_resolved)
  next
    case (ReadError m)
    then show ?thesis unfolding args by (simp add: main_read_error)
  next
    case (Content t)
    show ?thesis
    proof (cases "b64decode (strip t)")
      case (Inl e)
      with b64decode_error obtain m where "b64decode (strip t) = Inl (Exception m)"
        by blast
      with Content show ?thesis unfolding args by (simp add: main_decode_error)
    next
      case (Inr data)
      show ?thesis
      proof (cases "length data < 33")
        case True
        with Content Inr show ?thesis unfolding args by (simp add: main_too_short)
      next
        case False
        then have "33 \<le> length data" by simp
        with Content Inr have "main prog [p] fs =
            \<lparr>out = bytes_hex (take 32 (drop 1 data)) @ [10], err = [], exit_status = 0\<rparr>"
          by (rule main_success)
        with \<open>33 \<le> length data\<close> show ?thesis unfolding args by blast
      qed
    qed
  qed
qed

lemma main_same_text:
  assumes "fs1 p1 = Content t1" and "fs2 p2 = Content t2" and "strip t1 = strip t2"
  shows "main prog1 [p1] fs1 = main prog2 [p2] fs2"
proof (cases "b64decode (strip t2)")
  case (Inl e)
  with b64decode_error obtain m where m: "b64decode (strip t2) = Inl (Exception m)"
    by blast
  then have "b64decode (strip t1) = Inl (Exception m)"
    by (simp only: assms(3))
  from main_decode_error [where fs = fs1 and p = p1, OF assms(1) this]
       main_decode_error [where fs = fs2 and p = p2, OF assms(2) m]
  show ?thesis by simp
next
  case (Inr data)
  then have d1: "b64decode (strip t1) = Inr data"
    by (simp only: assms(3))
  show ?thesis
  proof (cases "length data < 33")
    case True
    from main_too_short [where fs = fs1 and p = p1, OF assms(1) d1 True]
         main_too_short [where fs = fs2 and p = p2, OF assms(2) Inr True]
    show ?thesis by simp
  next
    case False
    then have len: "33 \<le> length data" by simp
    from main_success [where fs = fs1 and p = p1, OF assms(1) d1 len]
         main_success [where fs = fs2 and p = p2, OF assms(2) Inr len]
    show ?thesis by simp
  qed
qed

subsection \<open>Whitespace is invisible to the decoder\<close>

lemma a2b_loop_skip:
  "c \<noteq> BASE64_PAD \<Longrightarrow> 64 \<le> table_a2b_base64 c \<Longrightarrow>
   a2b_loop q l p bin (c # cs) = a2b_loop q l p bin cs"
  by (simp add: a2b_loop.simps)

lemma a2b_loop_skip_prefix:
  "list_all (\<lambda>c. c \<noteq> BASE64_PAD \<and> 64 \<le> table_a2b_base64 c) ws \<Longrightarrow>
   a2b_loop q l p bin (ws @ cs) = a2b_loop q l p bin cs"
  by (induction ws) (simp_all add: a2b_loop_skip)

lemma a2b_loop_skip_suffix:
  "list_all (\<lambda>c. c \<noteq> BASE64_PAD \<and> 64 \<le> table_a2b_base64 c) ws \<Longrightarrow>
   a2b_loop q l p bin (cs @ ws) = a2b_loop q l p bin cs"
proof (induction q l p bin cs rule: a2b_loop.induct)
  case (1 q l p bin)
  from a2b_loop_skip_prefix [OF 1, of q l p bin "[]"] show ?case by simp
next
  case (2 q l p bin c cs)
  then show ?case
    by (simp add: a2b_loop.simps Let_def)
qed

lemma space_skipped:
  assumes "isspace c" and "c < 128"
  shows "(of_nat c :: byte) \<noteq> BASE64_PAD \<and> 64 \<le> table_a2b_base64 (of_nat c)"
proof -
  have c: "c < 256" using assms(2) by simp
  have r: "(9 \<le> c \<and> c \<le> 13) \<or> (28 \<le> c \<and> c \<le> 32)"
    using assms by (auto simp: isspace_def)
  then have "table_a2b_base64 (of_nat c) = 255"
    by (subst a2b_of_nat [OF c]) auto
  moreover have "unat (of_nat c :: byte) \<noteq> unat BASE64_PAD"
    using r by (auto simp: unat_of_nat_byte [OF c] BASE64_PAD_def)
  ultimately show ?thesis by auto
qed

lemma spaces_skipped:
  "list_all isspace ws \<Longrightarrow> list_all (\<lambda>c. c < 128) ws \<Longrightarrow>
   list_all (\<lambda>c. c \<noteq> BASE64_PAD \<and> 64 \<le> table_a2b_base64 c) (map of_nat ws)"
  by (induction ws) (simp_all add: space_skipped)

lemma rev_split: "rev (dropWhile P (rev xs)) @ rev (takeWhile P (rev xs)) = xs"
proof -
  have "rev (takeWhile P (rev xs) @ dropWhile P (rev xs)) = xs"
    by (simp only: takeWhile_dropWhile_id rev_rev_ident)
  then show ?thesis by (simp only: rev_append)
qed

lemma strip_decompose:
  "\<exists>w1 w2. s = w1 @ strip s @ w2 \<and> list_all isspace w1 \<and> list_all isspace w2"
proof -
  let ?x = "dropWhile isspace s"
  have x: "?x = strip s @ rev (takeWhile isspace (rev ?x))"
    unfolding strip_def by (rule rev_split [symmetric])
  have "s = takeWhile isspace s @ ?x" by simp
  with x have "s = takeWhile isspace s @ strip s @ rev (takeWhile isspace (rev ?x))"
    by simp
  moreover have "list_all isspace (takeWhile isspace s)"
    by (simp add: list_all_iff) (meson set_takeWhileD)
  moreover have "list_all isspace (rev (takeWhile isspace (rev ?x)))"
    by (simp add: list_all_iff) (meson set_takeWhileD)
  ultimately show ?thesis by blast
qed

lemma b64decode_strip:
  assumes "b64decode s = Inr d"
  shows "b64decode (strip s) = Inr d"
proof -
  from strip_decompose obtain w1 w2 where
    s: "s = w1 @ strip s @ w2" and w1: "list_all isspace w1" and w2: "list_all isspace w2"
    by blast
  have ascii: "list_all (\<lambda>c. c < 128) s"
    using assms by (auto simp: b64decode_def bytes_from_decode_data_def split: if_splits)
  then have "list_all (\<lambda>c. c < 128) (w1 @ strip s @ w2)"
    using s by simp
  then have a1: "list_all (\<lambda>c. c < 128) w1" and a: "list_all (\<lambda>c. c < 128) (strip s)"
    and a2: "list_all (\<lambda>c. c < 128) w2"
    by simp_all
  have "a2b_base64 (map of_nat s) = Inr d"
    using assms ascii by (simp add: b64decode_def bytes_from_decode_data_def)
  then have "a2b_loop 0 0 0 [] (map of_nat w1 @ map of_nat (strip s) @ map of_nat w2) = Inr d"
    unfolding a2b_base64_def by (subst (asm) s) simp
  then have "a2b_loop 0 0 0 [] (map of_nat (strip s) @ map of_nat w2) = Inr d"
    by (simp only: a2b_loop_skip_prefix [OF spaces_skipped [OF w1 a1]])
  then have "a2b_loop 0 0 0 [] (map of_nat (strip s)) = Inr d"
    by (simp only: a2b_loop_skip_suffix [OF spaces_skipped [OF w2 a2]])
  then show ?thesis
    using a by (simp add: b64decode_def bytes_from_decode_data_def a2b_base64_def)
qed

subsection \<open>Hexadecimal and decimal text read back\<close>

lemma hex_value_digit: "n < 16 \<Longrightarrow> hex_value (hex_digit n) = Some n"
  by (auto simp: hex_value_def hex_digit_def)

lemma byte_of_halves: "(of_nat (16 * (unat b div 16) + unat b mod 16) :: byte) = b"
  by simp

lemma hex_decode_hex_byte:
  "hex_decode (hex_byte b @ cs) = map_option ((#) b) (hex_decode cs)"
proof -
  have "unat b < 256" using unsigned_less [of b] by simp
  then have "unat b div 16 < 16" "unat b mod 16 < 16" by simp_all
  then show ?thesis
    by (cases "hex_decode cs") (simp_all add: hex_byte_def hex_value_digit del: of_nat_add of_nat_mult)
qed

lemma hex_decode_bytes_hex: "hex_decode (bytes_hex bs) = Some bs"
  by (induction bs) (simp_all add: bytes_hex_def hex_decode_hex_byte)

lemma decimal_value_snoc: "decimal_value (s @ [c]) = 10 * decimal_value s + (c - 48)"
  by (simp add: decimal_value_def)

lemma str_nat_nonempty: "str_nat n \<noteq> []"
  by (subst str_nat.simps) simp

lemma str_nat_digits: "list_all is_digit (str_nat n)"
proof (induction n rule: str_nat.induct)
  case (1 n)
  show ?case
  proof (cases "n < 10")
    case True
    then show ?thesis by (subst str_nat.simps) (simp add: is_digit_def)
  next
    case False
    have "n mod 10 < 10" by simp
    then have "is_digit (48 + n mod 10)" unfolding is_digit_def by linarith
    with False 1 show ?thesis by (subst str_nat.simps) simp
  qed
qed

lemma str_nat_value: "decimal_value (str_nat n) = n"
proof (induction n rule: str_nat.induct)
  case (1 n)
  show ?case
  proof (cases "n < 10")
    case True
    then show ?thesis by (subst str_nat.simps) (simp add: decimal_value_def)
  next
    case False
    with 1 have "decimal_value (str_nat (n div 10)) = n div 10" by simp
    with False show ?thesis
      by (subst str_nat.simps) (simp add: decimal_value_snoc)
  qed
qed

lemma str_nat_canonical: "str_nat n = [48] \<or> hd (str_nat n) \<noteq> 48"
proof (induction n rule: str_nat.induct)
  case (1 n)
  show ?case
  proof (cases "n < 10")
    case True
    then show ?thesis by (subst (1 2) str_nat.simps) auto
  next
    case False
    have "hd (str_nat (n div 10)) \<noteq> 48"
    proof
      assume h: "hd (str_nat (n div 10)) = 48"
      with False 1 have "str_nat (n div 10) = [48]" by simp
      then have "decimal_value (str_nat (n div 10)) = 0" by (simp add: decimal_value_def)
      then have "n div 10 = 0" by (simp add: str_nat_value)
      with False show False by simp
    qed
    then have "hd (str_nat (n div 10) @ [48 + n mod 10]) \<noteq> 48"
      by (simp add: str_nat_nonempty)
    with False show ?thesis by (subst (1 2) str_nat.simps) simp
  qed
qed

lemma str_nat_decimal: "is_decimal_of (str_nat n) n"
  unfolding is_decimal_of_def
  using str_nat_nonempty str_nat_digits str_nat_value str_nat_canonical by blast

subsection \<open>When the decoder raises, from the text alone\<close>

lemma closing_pad_iff:
  "closing_pad p cs \<longleftrightarrow> (\<exists>i<length cs. cs ! i = 61 \<and> closes_quad (p @ take i cs))"
  by (auto simp: closing_pad_def list_ex_iff)

lemma closing_pad_Nil: "closing_pad p [] = False"
  by (simp add: closing_pad_def)

lemma closing_pad_Cons:
  "closing_pad p (c # cs) = ((c = 61 \<and> closes_quad p) \<or> closing_pad (p @ [c]) cs)"
proof -
  have "(\<exists>i<Suc (length cs). (c # cs) ! i = 61 \<and> closes_quad (p @ take i (c # cs))) =
        ((c = 61 \<and> closes_quad p) \<or>
         (\<exists>j<length cs. cs ! j = 61 \<and> closes_quad ((p @ [c]) @ take j cs)))"
  proof
    assume "\<exists>i<Suc (length cs). (c # cs) ! i = 61 \<and> closes_quad (p @ take i (c # cs))"
    then obtain i where i: "i < Suc (length cs)" "(c # cs) ! i = 61"
      "closes_quad (p @ take i (c # cs))" by blast
    show "(c = 61 \<and> closes_quad p) \<or>
         (\<exists>j<length cs. cs ! j = 61 \<and> closes_quad ((p @ [c]) @ take j cs))"
    proof (cases i)
      case 0
      with i show ?thesis by simp
    next
      case (Suc j)
      with i have "j < length cs" "cs ! j = 61" "closes_quad ((p @ [c]) @ take j cs)"
        by simp_all
      then show ?thesis by blast
    qed
  next
    assume "(c = 61 \<and> closes_quad p) \<or>
         (\<exists>j<length cs. cs ! j = 61 \<and> closes_quad ((p @ [c]) @ take j cs))"
    then show "\<exists>i<Suc (length cs). (c # cs) ! i = 61 \<and> closes_quad (p @ take i (c # cs))"
    proof
      assume "c = 61 \<and> closes_quad p"
      then have "0 < Suc (length cs) \<and> (c # cs) ! 0 = 61 \<and> closes_quad (p @ take 0 (c # cs))"
        by simp
      then show ?thesis by blast
    next
      assume "\<exists>j<length cs. cs ! j = 61 \<and> closes_quad ((p @ [c]) @ take j cs)"
      then obtain j where "j < length cs" "cs ! j = 61" "closes_quad ((p @ [c]) @ take j cs)"
        by blast
      then have "Suc j < Suc (length cs) \<and> (c # cs) ! Suc j = 61 \<and>
                 closes_quad (p @ take (Suc j) (c # cs))"
        by simp
      then show ?thesis by blast
    qed
  qed
  then show ?thesis
    unfolding closing_pad_iff length_Cons .
qed

lemma data_count_snoc:
  "data_count (p @ [c]) = (if base64_char c then Suc (data_count p) else data_count p)"
  by (simp add: data_count_def)

lemma pad_pending_snoc:
  "pad_pending (p @ [c]) = (\<not> base64_char c \<and> (c = 61 \<or> pad_pending p))"
  by (auto simp: pad_pending_def)

lemma ascii_pad: "c < 128 \<Longrightarrow> ((of_nat c :: byte) = BASE64_PAD) = (c = 61)"
proof -
  assume "c < 128"
  then have "unat (of_nat c :: byte) = c" by (simp add: unat_of_nat_byte)
  moreover have "unat BASE64_PAD = 61" by (simp add: BASE64_PAD_def)
  ultimately show ?thesis by (metis word_unat_eq_iff)
qed

lemma small_not_ge64: "k < 64 \<Longrightarrow> \<not> 64 \<le> (of_nat k :: byte)"
  by (simp add: word_le_nat_alt unat_of_nat_byte)

lemma ascii_table:
  assumes "c < 128" and "c \<noteq> 61"
  shows "(64 \<le> table_a2b_base64 (of_nat c)) = (\<not> base64_char c)"
proof (cases "base64_char c")
  case True
  have c: "c < 256" using assms by simp
  from True consider "65 \<le> c" "c \<le> 90" | "97 \<le> c" "c \<le> 122" | "48 \<le> c" "c \<le> 57"
    | "c = 43" | "c = 47"
    by (auto simp: base64_char_def)
  then have "\<not> 64 \<le> table_a2b_base64 (of_nat c)"
  proof cases
    case 1
    then have "table_a2b_base64 (of_nat c) = of_nat (c - 65)"
      by (subst a2b_of_nat [OF c]) simp
    moreover have "c - 65 < 64" using 1 by simp
    ultimately show ?thesis by (simp only: small_not_ge64 not_False_eq_True)
  next
    case 2
    then have "table_a2b_base64 (of_nat c) = of_nat (c - 71)"
      by (subst a2b_of_nat [OF c]) simp
    moreover have "c - 71 < 64" using 2 by simp
    ultimately show ?thesis by (simp only: small_not_ge64 not_False_eq_True)
  next
    case 3
    then have "table_a2b_base64 (of_nat c) = of_nat (c + 4)"
      by (subst a2b_of_nat [OF c]) simp
    moreover have "c + 4 < 64" using 3 by simp
    ultimately show ?thesis by (simp only: small_not_ge64 not_False_eq_True)
  next
    case 4
    then show ?thesis by (simp add: table_a2b_base64_def)
  next
    case 5
    then show ?thesis by (simp add: table_a2b_base64_def)
  qed
  with True show ?thesis by simp
next
  case False
  have c: "c < 256" using assms by simp
  from False assms have "table_a2b_base64 (of_nat c) = 255"
    by (subst a2b_of_nat [OF c]) (auto simp: base64_char_def)
  with False show ?thesis by simp
qed

lemma step_pad:
  "a2b_loop q l pads bin (61 # bs) =
     (if 2 \<le> q then (if 4 \<le> q + (pads + 1) then Inr bin else a2b_loop q l (pads + 1) bin bs)
      else a2b_loop q l pads bin bs)"
  by (rule a2b_loop_pad [unfolded BASE64_PAD_def])

lemma step_junk:
  assumes "c < 128" and "c \<noteq> 61" and "\<not> base64_char c"
  shows "a2b_loop q l pads bin (of_nat c # bs) = a2b_loop q l pads bin bs"
  using assms by (intro a2b_loop_skip) (simp_all add: ascii_pad ascii_table)

lemma step_data:
  assumes "c < 128" and "base64_char c" and "q < 4"
  shows "\<exists>l' b. a2b_loop q l pads bin (of_nat c # bs) =
           a2b_loop (if q = 3 then 0 else q + 1) l' 0 (if q = 0 then bin else bin @ [b]) bs"
proof -
  have ne: "c \<noteq> 61" using assms(2) by (auto simp: base64_char_def)
  have np: "(of_nat c :: byte) \<noteq> BASE64_PAD" using assms(1) ne by (simp add: ascii_pad)
  have lt: "\<not> 64 \<le> table_a2b_base64 (of_nat c)"
    using assms(1,2) ne by (simp add: ascii_table)
  let ?v = "table_a2b_base64 (of_nat c)"
  consider "q = 0" | "q = 1" | "q = 2" | "q = 3" using assms(3) by linarith
  then show ?thesis
  proof cases
    case 1
    show ?thesis
      by (rule exI [of _ ?v], rule exI [of _ 0])
        (use 1 np lt in \<open>simp add: a2b_loop.simps Let_def numeral_2_eq_2 numeral_3_eq_3\<close>)
  next
    case 2
    show ?thesis
      by (rule exI [of _ "?v AND 0x0f"], rule exI [of _ "push_bit 2 l OR drop_bit 4 ?v"])
        (use 2 np lt in \<open>simp add: a2b_loop.simps Let_def numeral_2_eq_2 numeral_3_eq_3\<close>)
  next
    case 3
    show ?thesis
      by (rule exI [of _ "?v AND 0x03"], rule exI [of _ "push_bit 4 l OR drop_bit 2 ?v"])
        (use 3 np lt in \<open>simp add: a2b_loop.simps Let_def numeral_2_eq_2 numeral_3_eq_3\<close>)
  next
    case 4
    show ?thesis
      by (rule exI [of _ 0], rule exI [of _ "push_bit 6 l OR ?v"])
        (use 4 np lt in \<open>simp add: a2b_loop.simps Let_def numeral_2_eq_2 numeral_3_eq_3\<close>)
  qed
qed

lemma next_quad_pos: "Suc n mod 4 = (if n mod 4 = 3 then 0 else n mod 4 + 1)"
  by (simp add: mod_Suc)

lemma mod4_cases: "n mod 4 = (0::nat) \<or> n mod 4 = 1 \<or> n mod 4 = 2 \<or> n mod 4 = 3"
proof -
  have "n mod 4 < 4" by simp
  then show ?thesis by linarith
qed

lemma next_bin_length:
  "3 * (Suc n div 4) + ((if n mod 4 = 3 then 0 else n mod 4 + 1) - 1) =
   (if n mod 4 = 0 then 3 * (n div 4) + (n mod 4 - 1)
    else Suc (3 * (n div 4) + (n mod 4 - 1)))"
  using mod4_cases [of n] by (elim disjE) (simp_all add: div_Suc mod_Suc)

lemma count_of_bin_length:
  assumes "n mod 4 = 1"
  shows "(3 * (n div 4) + (1 - 1)) div 3 * 4 + 1 = (n::nat)"
proof -
  have "n = 4 * (n div 4) + n mod 4" by simp
  with assms show ?thesis by simp
qed

lemma loop_verdict:
  assumes "list_all (\<lambda>c. c < 128) cs"
    and "q = data_count p mod 4"
    and "pads = (if q = 2 \<and> pad_pending p then 1 else 0)"
    and "length bin = 3 * (data_count p div 4) + (q - 1)"
  shows "if closing_pad p cs \<or> data_count (p @ cs) mod 4 = 0
         then (\<exists>d. a2b_loop q l pads bin (map of_nat cs) = Inr d)
         else a2b_loop q l pads bin (map of_nat cs) =
                Inl (Exception (incomplete_message (p @ cs)))"
  using assms
proof (induction cs arbitrary: p q l pads bin)
  case Nil
  show ?case
  proof (cases "q = 0")
    case True
    with Nil show ?thesis by (simp add: closing_pad_Nil a2b_loop.simps)
  next
    case False
    show ?thesis
    proof (cases "q = 1")
      case True
      with Nil have "length bin div 3 * 4 + 1 = data_count p"
        using count_of_bin_length [of "data_count p"] by simp
      with True Nil show ?thesis
        by (simp add: closing_pad_Nil a2b_loop.simps incomplete_message_def)
    next
      case q1: False
      with False Nil show ?thesis
        by (simp add: closing_pad_Nil a2b_loop.simps incomplete_message_def)
    qed
  qed
next
  case (Cons c cs)
  from Cons.prems(1) have c: "c < 128" and cs: "list_all (\<lambda>c. c < 128) cs" by simp_all
  have q4: "q < 4" using Cons.prems(2) by simp
  have app: "p @ c # cs = (p @ [c]) @ cs" by simp
  show ?case
  proof (cases "c = 61")
    case True
    have dc: "data_count (p @ [c]) = data_count p"
      using True by (simp add: data_count_snoc base64_char_def)
    have pp: "pad_pending (p @ [c])"
      using True by (simp add: pad_pending_snoc base64_char_def)
    show ?thesis
    proof (cases "2 \<le> q \<and> 4 \<le> q + (pads + 1)")
      case stop: True
      then have "closes_quad p"
        using Cons.prems(2,3) q4 by (auto simp: closes_quad_def split: if_splits)
      then have "closing_pad p (c # cs)" using True by (simp add: closing_pad_Cons)
      moreover have "a2b_loop q l pads bin (map of_nat (c # cs)) = Inr bin"
        using stop True by (simp add: step_pad)
      ultimately show ?thesis by simp
    next
      case go: False
      have nc: "\<not> closes_quad p"
        using go Cons.prems(2,3) q4 by (auto simp: closes_quad_def split: if_splits)
      have run: "a2b_loop q l pads bin (map of_nat (c # cs)) =
                 a2b_loop q l (if 2 \<le> q then pads + 1 else pads) bin (map of_nat cs)"
        using go True by (simp add: step_pad)
      have p': "(if 2 \<le> q then pads + 1 else pads) = (if q = 2 \<and> pad_pending (p @ [c]) then 1 else 0)"
        using go Cons.prems(3) q4 pp by (auto split: if_splits)
      have "if closing_pad (p @ [c]) cs \<or> data_count ((p @ [c]) @ cs) mod 4 = 0
         then (\<exists>d. a2b_loop q l (if 2 \<le> q then pads + 1 else pads) bin (map of_nat cs) = Inr d)
         else a2b_loop q l (if 2 \<le> q then pads + 1 else pads) bin (map of_nat cs) =
                Inl (Exception (incomplete_message ((p @ [c]) @ cs)))"
        by (rule Cons.IH [OF cs _ p']) (simp_all add: dc Cons.prems(2,4))
      then show ?thesis
        unfolding run app using nc by (simp add: closing_pad_Cons)
    qed
  next
    case False
    show ?thesis
    proof (cases "base64_char c")
      case junk: False
      have dc: "data_count (p @ [c]) = data_count p"
        using junk by (simp add: data_count_snoc)
      have pp: "pad_pending (p @ [c]) = pad_pending p"
        using junk False by (simp add: pad_pending_snoc)
      have run: "a2b_loop q l pads bin (map of_nat (c # cs)) =
                 a2b_loop q l pads bin (map of_nat cs)"
        using step_junk [OF c False junk] by simp
      have "if closing_pad (p @ [c]) cs \<or> data_count ((p @ [c]) @ cs) mod 4 = 0
         then (\<exists>d. a2b_loop q l pads bin (map of_nat cs) = Inr d)
         else a2b_loop q l pads bin (map of_nat cs) =
                Inl (Exception (incomplete_message ((p @ [c]) @ cs)))"
        by (rule Cons.IH [OF cs]) (simp_all add: dc pp Cons.prems(2,3,4))
      then show ?thesis
        unfolding run app using False by (simp add: closing_pad_Cons)
    next
      case data: True
      have dc: "data_count (p @ [c]) = Suc (data_count p)"
        using data by (simp add: data_count_snoc)
      have pp: "\<not> pad_pending (p @ [c])"
        using data by (simp add: pad_pending_snoc)
      from step_data [OF c data q4, where l = l and pads = pads and bin = bin
          and bs = "map of_nat cs"]
      obtain l' b where
        run0: "a2b_loop q l pads bin (of_nat c # map of_nat cs) =
              a2b_loop (if q = 3 then 0 else q + 1) l' 0 (if q = 0 then bin else bin @ [b])
                (map of_nat cs)"
        by blast
      then have run: "a2b_loop q l pads bin (map of_nat (c # cs)) =
              a2b_loop (if q = 3 then 0 else q + 1) l' 0 (if q = 0 then bin else bin @ [b])
                (map of_nat cs)"
        by simp
      have q': "(if q = 3 then 0 else q + 1) = data_count (p @ [c]) mod 4"
        unfolding dc Cons.prems(2) by (simp only: next_quad_pos)
      have pads': "(0::nat) = (if (if q = 3 then 0 else q + 1) = 2 \<and> pad_pending (p @ [c]) then 1 else 0)"
        using pp by simp
      have len: "length (if q = 0 then bin else bin @ [b]) =
                 3 * (data_count (p @ [c]) div 4) + ((if q = 3 then 0 else q + 1) - 1)"
        unfolding dc Cons.prems(2) next_bin_length
        using Cons.prems(2,4) by simp
      have "if closing_pad (p @ [c]) cs \<or> data_count ((p @ [c]) @ cs) mod 4 = 0
         then (\<exists>d. a2b_loop (if q = 3 then 0 else q + 1) l' 0 (if q = 0 then bin else bin @ [b])
                (map of_nat cs) = Inr d)
         else a2b_loop (if q = 3 then 0 else q + 1) l' 0 (if q = 0 then bin else bin @ [b])
                (map of_nat cs) =
                Inl (Exception (incomplete_message ((p @ [c]) @ cs)))"
        by (rule Cons.IH [OF cs q' pads' len])
      then show ?thesis
        unfolding run app using False by (simp add: closing_pad_Cons)
    qed
  qed
qed

lemma padded_end_closing: "padded_end s = closing_pad [] s"
  by (simp add: padded_end_def closing_pad_def)

lemma b64decode_nonascii:
  "\<not> list_all (\<lambda>c. c < 128) s \<Longrightarrow>
   b64decode s = Inl (Exception (lit ''string argument should contain only ASCII characters''))"
  by (simp add: b64decode_def bytes_from_decode_data_def)

lemma b64decode_ascii:
  "list_all (\<lambda>c. c < 128) s \<Longrightarrow> b64decode s = a2b_loop 0 0 0 [] (map of_nat s)"
  by (simp add: b64decode_def bytes_from_decode_data_def a2b_base64_def)

lemma b64decode_verdict:
  assumes "list_all (\<lambda>c. c < 128) s"
  shows "if padded_end s \<or> data_count s mod 4 = 0
         then (\<exists>d. b64decode s = Inr d)
         else b64decode s = Inl (Exception (incomplete_message s))"
proof -
  have "if closing_pad [] s \<or> data_count ([] @ s) mod 4 = 0
         then (\<exists>d. a2b_loop 0 0 0 [] (map of_nat s) = Inr d)
         else a2b_loop 0 0 0 [] (map of_nat s) = Inl (Exception (incomplete_message ([] @ s)))"
    by (rule loop_verdict [OF assms]) (simp_all add: data_count_def pad_pending_def)
  then show ?thesis
    by (simp add: padded_end_closing b64decode_ascii [OF assms])
qed

lemma b64decode_incomplete:
  assumes "list_all (\<lambda>c. c < 128) s" and "\<not> padded_end s" and "data_count s mod 4 \<noteq> 0"
  shows "b64decode s = Inl (Exception (incomplete_message s))"
  using b64decode_verdict [OF assms(1)] assms(2,3) by simp

lemma b64decode_complete:
  assumes "list_all (\<lambda>c. c < 128) s" and "padded_end s \<or> data_count s mod 4 = 0"
  shows "\<exists>d. b64decode s = Inr d"
  using b64decode_verdict [OF assms(1)] assms(2) by simp

section \<open>The example inputs, evaluated\<close>

text \<open>The decoder on short inputs, as CPython 3.11 answers them.\<close>

lemma decoder_examples:
  "b64decode (lit ''AB=='') = Inr [0]"
  "b64decode (lit ''AB=C='') = Inr [0, 16]"
  "b64decode (lit ''=ABCD'') = Inr [0, 16, 131]"
  "b64decode (lit ''AB=!='') = Inr [0]"
  "b64decode (lit ''AB=C'') = Inl (Exception (lit ''Incorrect padding''))"
  "b64decode (lit ''AAAAA==='') =
     Inl (Exception (lit ''Invalid base64-encoded string: number of data characters (5) cannot be 1 more than a multiple of 4''))"
  "b64decode [233] =
     Inl (Exception (lit ''string argument should contain only ASCII characters''))"
  by code_simp+

lemma scenario_encoding: "b64encode scenario_payload = scenario_text"
  by code_simp

lemma scenario_key_hex: "bytes_hex (take 32 (drop 1 scenario_payload)) = scenario_hex"
  by code_simp

lemma zeros_decode: "b64decode (strip zeros_text) = Inr (replicate 32 0)"
  by code_simp

lemma scenario_decode: "b64decode (strip scenario_text) = Inr scenario_payload"
  by code_simp

lemma other_flag_decode:
  "b64decode (strip other_flag_text) = Inr (0xff # map of_nat [0x01 ..< 0x21] @ [7, 7])"
  by code_simp

lemma noisy_decode: "b64decode (strip noisy_text) = Inr scenario_payload"
  by code_simp

lemma noisy_invalid: "\<not> valid_base64 (strip noisy_text)"
  by code_simp

lemma truncated_decode:
  "b64decode (strip truncated_text) = Inl (Exception (lit ''Incorrect padding''))"
  by code_simp

lemma truncated_invalid: "\<not> valid_base64 (strip truncated_text)"
  by code_simp

lemma scenario_decode_unstripped: "b64decode scenario_text = Inr scenario_payload"
  by code_simp

lemma noisy_has_bang: "33 \<in> set (strip noisy_text) \<and> \<not> base64_char 33"
  by code_simp

lemma nonascii_stripped: "\<not> list_all (\<lambda>c. c < 128) (strip nonascii_text)"
  by code_simp

lemma one_over_facts:
  "list_all (\<lambda>c. c < 128) (strip one_over_text) \<and> \<not> padded_end (strip one_over_text) \<and>
   data_count (strip one_over_text) mod 4 = 1"
  by code_simp

lemma one_over_count: "str_nat (data_count (strip one_over_text)) = lit ''5''"
  by code_simp

lemma truncated_facts:
  "list_all (\<lambda>c. c < 128) (strip truncated_text) \<and> \<not> padded_end (strip truncated_text) \<and>
   data_count (strip truncated_text) mod 4 = 3"
  by code_simp

lemma noisy_facts:
  "list_all (\<lambda>c. c < 128) (strip noisy_text) \<and> data_count (strip noisy_text) mod 4 = 0"
  by code_simp

lemma notdir_unresolved: "notdir_fs notdir_path = NotResolved notdir_message"
  by (simp add: notdir_fs_def notdir_path_def lit_def)

section \<open>The claims\<close>

text \<open>
  C1. For every byte sequence \<open>B\<close> of at least 33 bytes, the script run on a file that holds
  the base64 encoding of \<open>B\<close> exits with status 0, prints nothing on standard error and
  prints on standard output one line \<open>h\<close> and a newline, where \<open>h\<close> is the lowercase hex
  encoding of \<open>B[1:33]\<close>, the 32 bytes after the flag byte: 64 lowercase hex digits that read
  back, pair by pair, as exactly those bytes.
\<close>

theorem C1_roundtrip:
  assumes "33 \<le> length B" and "fs p = Content (b64encode B)"
  shows "\<exists>h. main prog [p] fs = \<lparr>out = h @ [10], err = [], exit_status = 0\<rparr> \<and>
             h = bytes_hex (take 32 (drop 1 B)) \<and>
             length h = 64 \<and> list_all is_lower_hex h \<and>
             hex_decode h = Some (take 32 (drop 1 B))"
proof -
  have "b64decode (strip (b64encode B)) = Inr B"
    by (simp only: strip_b64encode b64decode_b64encode)
  with assms have "main prog [p] fs =
      \<lparr>out = bytes_hex (take 32 (drop 1 B)) @ [10], err = [], exit_status = 0\<rparr>"
    by (rule_tac main_success)
  moreover have "length (bytes_hex (take 32 (drop 1 B))) = 64"
    using assms(1) by (simp add: length_bytes_hex)
  ultimately show ?thesis
    by (simp add: bytes_hex_lower hex_decode_bytes_hex)
qed

theorem C1_roundtrip_witness:
  "33 \<le> length scenario_payload \<and>
   single_file key_path scenario_text key_path = Content (b64encode scenario_payload) \<and>
   main script_name [key_path] (single_file key_path scenario_text) =
     \<lparr>out = scenario_hex @ [10], err = [], exit_status = 0\<rparr> \<and>
   hex_decode scenario_hex = Some (take 32 (drop 1 scenario_payload))"
proof -
  have len: "33 \<le> length scenario_payload"
    by (simp add: scenario_payload_def)
  have rd: "single_file key_path scenario_text key_path = Content (b64encode scenario_payload)"
    by (simp add: single_file_def scenario_encoding)
  from C1_roundtrip [where B = scenario_payload and fs = "single_file key_path scenario_text"
        and p = key_path and prog = script_name, OF len rd]
  obtain h where
    "main script_name [key_path] (single_file key_path scenario_text) =
       \<lparr>out = h @ [10], err = [], exit_status = 0\<rparr>"
    and "h = bytes_hex (take 32 (drop 1 scenario_payload))"
    and "hex_decode h = Some (take 32 (drop 1 scenario_payload))"
    by blast
  then show ?thesis
    using len rd by (simp only: scenario_key_hex simp_thms)
qed

text \<open>
  C2. For every file whose decoded content is shorter than 33 bytes, the script exits with
  status 1, prints nothing on standard output, and prints on standard error the length
  diagnostic, in which the decoded length stands as its decimal numeral, followed by the
  minimum of 33.
\<close>

theorem C2_short_payload:
  assumes "fs p = Content t" and "b64decode (strip t) = Inr data" and "length data < 33"
  shows "\<exists>num. main prog [p] fs =
           \<lparr>out = [],
            err = lit ''ERROR: Decoded data too short: '' @ num
                  @ lit '' bytes (expected at least 33)'' @ [10],
            exit_status = 1\<rparr> \<and>
           num = str_nat (length data) \<and> is_decimal_of num (length data)"
  using main_too_short [where fs = fs and p = p, OF assms] by (simp add: str_nat_decimal)

theorem C2_short_payload_witness:
  "main script_name [key_path] (single_file key_path zeros_text) =
   \<lparr>out = [],
    err = lit ''ERROR: Decoded data too short: 32 bytes (expected at least 33)'' @ [10],
    exit_status = 1\<rparr> \<and>
   is_decimal_of (lit ''32'') 32"
proof -
  have rd: "single_file key_path zeros_text key_path = Content zeros_text"
    by (simp add: single_file_def)
  have len: "length (replicate 32 (0::byte)) < 33" by simp
  have n: "str_nat (length (replicate 32 (0::byte))) = lit ''32''"
    by (simp add: lit_def str_nat.simps)
  have msg: "lit ''ERROR: Decoded data too short: '' @ lit ''32''
                  @ lit '' bytes (expected at least 33)'' @ [10]
           = lit ''ERROR: Decoded data too short: 32 bytes (expected at least 33)'' @ [10]"
    by (simp add: lit_def)
  from C2_short_payload [where fs = "single_file key_path zeros_text"
        and p = key_path and prog = script_name, OF rd zeros_decode len]
  obtain num where
    r: "main script_name [key_path] (single_file key_path zeros_text) =
       \<lparr>out = [],
        err = lit ''ERROR: Decoded data too short: '' @ num
              @ lit '' bytes (expected at least 33)'' @ [10],
        exit_status = 1\<rparr>"
    and num: "num = str_nat (length (replicate 32 (0::byte)))"
    and dec: "is_decimal_of num (length (replicate 32 (0::byte)))"
    by blast
  from num n have "num = lit ''32''" by simp
  with r dec show ?thesis by (simp add: msg)
qed

text \<open>
  C3. As stated (every file whose stripped content is not valid base64, for example one with
  a character outside the alphabet, ends in a decoding failure) the claim fails:
  \<open>b64decode\<close> in its default mode skips characters outside the alphabet, so a file
  that is not valid base64 can decode and the script then succeeds.
\<close>

theorem C3_counterexample:
  "33 \<in> set (strip noisy_text) \<and> \<not> base64_char 33 \<and>
   \<not> valid_base64 (strip noisy_text) \<and>
   main script_name [key_path] (single_file key_path noisy_text) =
     \<lparr>out = scenario_hex @ [10], err = [], exit_status = 0\<rparr>"
proof -
  have rd: "single_file key_path noisy_text key_path = Content noisy_text"
    by (simp add: single_file_def)
  have l: "33 \<le> length scenario_payload"
    by (simp add: scenario_payload_def)
  from main_success [where fs = "single_file key_path noisy_text" and p = key_path,
      OF rd noisy_decode l] noisy_has_bang
  show ?thesis
    by (simp only: scenario_key_hex noisy_invalid simp_thms)
qed

text \<open>
  C3, amended. Let \<open>s\<close> be the content of the file after stripping. If \<open>s\<close> has a
  non-ASCII character, the script prints the decoder's ASCII complaint. If \<open>s\<close> is ASCII,
  no pad character of \<open>s\<close> closes a group and the number \<open>n\<close> of alphabet characters of
  \<open>s\<close> is not a multiple of 4, the script prints the decoder's complaint about the number
  of data characters (with \<open>n\<close> as a decimal numeral) when \<open>n mod 4 = 1\<close> and
  \<open>Incorrect padding\<close> otherwise. In each of these cases the diagnostic goes to standard
  error after \<open>ERROR:\<close>, standard output stays empty and the exit status is 1. Every
  other content decodes without error, and the run then ends with the length diagnostic or
  with the key, never with a decoding failure: ASCII characters outside the alphabet and
  pad characters that close no group are skipped, and what follows a closing pad is ignored.
\<close>

theorem C3_decode_failure:
  assumes "fs p = Content t"
  shows
    "(\<not> list_all (\<lambda>c. c < 128) (strip t) \<longrightarrow>
        main prog [p] fs =
          \<lparr>out = [],
           err = lit ''ERROR: string argument should contain only ASCII characters'' @ [10],
           exit_status = 1\<rparr>) \<and>
     (list_all (\<lambda>c. c < 128) (strip t) \<and> \<not> padded_end (strip t) \<and>
      data_count (strip t) mod 4 = 1 \<longrightarrow>
        main prog [p] fs =
          \<lparr>out = [],
           err = lit ''ERROR: Invalid base64-encoded string: number of data characters (''
                 @ str_nat (data_count (strip t))
                 @ lit '') cannot be 1 more than a multiple of 4'' @ [10],
           exit_status = 1\<rparr> \<and>
        is_decimal_of (str_nat (data_count (strip t))) (data_count (strip t))) \<and>
     (list_all (\<lambda>c. c < 128) (strip t) \<and> \<not> padded_end (strip t) \<and>
      (data_count (strip t) mod 4 = 2 \<or> data_count (strip t) mod 4 = 3) \<longrightarrow>
        main prog [p] fs =
          \<lparr>out = [], err = lit ''ERROR: Incorrect padding'' @ [10], exit_status = 1\<rparr>) \<and>
     (list_all (\<lambda>c. c < 128) (strip t) \<and>
      (padded_end (strip t) \<or> data_count (strip t) mod 4 = 0) \<longrightarrow>
        (\<exists>data. b64decode (strip t) = Inr data \<and>
           main prog [p] fs =
             (if length data < 33 then
                \<lparr>out = [],
                 err = lit ''ERROR: Decoded data too short: '' @ str_nat (length data)
                       @ lit '' bytes (expected at least 33)'' @ [10],
                 exit_status = 1\<rparr>
              else
                \<lparr>out = bytes_hex (take 32 (drop 1 data)) @ [10], err = [],
                 exit_status = 0\<rparr>)))"
proof (intro conjI impI)
  assume "\<not> list_all (\<lambda>c. c < 128) (strip t)"
  then have "b64decode (strip t) =
      Inl (Exception (lit ''string argument should contain only ASCII characters''))"
    by (rule b64decode_nonascii)
  from main_decode_error [where fs = fs and p = p, OF assms this]
  show "main prog [p] fs =
          \<lparr>out = [],
           err = lit ''ERROR: string argument should contain only ASCII characters'' @ [10],
           exit_status = 1\<rparr>"
    by (simp add: lit_def)
next
  assume a: "list_all (\<lambda>c. c < 128) (strip t) \<and> \<not> padded_end (strip t) \<and>
      data_count (strip t) mod 4 = 1"
  then have "b64decode (strip t) = Inl (Exception (incomplete_message (strip t)))"
    by (intro b64decode_incomplete) simp_all
  from main_decode_error [where fs = fs and p = p, OF assms this] a
  show "main prog [p] fs =
          \<lparr>out = [],
           err = lit ''ERROR: Invalid base64-encoded string: number of data characters (''
                 @ str_nat (data_count (strip t))
                 @ lit '') cannot be 1 more than a multiple of 4'' @ [10],
           exit_status = 1\<rparr>"
    by (simp add: incomplete_message_def lit_def)
  show "is_decimal_of (str_nat (data_count (strip t))) (data_count (strip t))"
    by (rule str_nat_decimal)
next
  assume a: "list_all (\<lambda>c. c < 128) (strip t) \<and> \<not> padded_end (strip t) \<and>
      (data_count (strip t) mod 4 = 2 \<or> data_count (strip t) mod 4 = 3)"
  then have "b64decode (strip t) = Inl (Exception (incomplete_message (strip t)))"
    by (intro b64decode_incomplete) auto
  from main_decode_error [where fs = fs and p = p, OF assms this] a
  show "main prog [p] fs =
          \<lparr>out = [], err = lit ''ERROR: Incorrect padding'' @ [10], exit_status = 1\<rparr>"
    by (auto simp: incomplete_message_def lit_def)
next
  assume a: "list_all (\<lambda>c. c < 128) (strip t) \<and>
      (padded_end (strip t) \<or> data_count (strip t) mod 4 = 0)"
  then have asc: "list_all (\<lambda>c. c < 128) (strip t)"
    and cond: "padded_end (strip t) \<or> data_count (strip t) mod 4 = 0"
    by simp_all
  from b64decode_complete [OF asc cond] obtain data where d: "b64decode (strip t) = Inr data" ..
  have "main prog [p] fs =
             (if length data < 33 then
                \<lparr>out = [],
                 err = lit ''ERROR: Decoded data too short: '' @ str_nat (length data)
                       @ lit '' bytes (expected at least 33)'' @ [10],
                 exit_status = 1\<rparr>
              else
                \<lparr>out = bytes_hex (take 32 (drop 1 data)) @ [10], err = [],
                 exit_status = 0\<rparr>)"
  proof (cases "length data < 33")
    case True
    from main_too_short [where fs = fs and p = p, OF assms d True] True
    show ?thesis by simp
  next
    case False
    then have "33 \<le> length data" by simp
    from main_success [where fs = fs and p = p, OF assms d this] False
    show ?thesis by simp
  qed
  with d show "\<exists>data. b64decode (strip t) = Inr data \<and>
           main prog [p] fs =
             (if length data < 33 then
                \<lparr>out = [],
                 err = lit ''ERROR: Decoded data too short: '' @ str_nat (length data)
                       @ lit '' bytes (expected at least 33)'' @ [10],
                 exit_status = 1\<rparr>
              else
                \<lparr>out = bytes_hex (take 32 (drop 1 data)) @ [10], err = [],
                 exit_status = 0\<rparr>)"
    by blast
qed

theorem C3_decode_failure_witness:
  "main script_name [key_path] (single_file key_path nonascii_text) =
     \<lparr>out = [],
      err = lit ''ERROR: string argument should contain only ASCII characters'' @ [10],
      exit_status = 1\<rparr> \<and>
   main script_name [key_path] (single_file key_path one_over_text) =
     \<lparr>out = [],
      err = lit ''ERROR: Invalid base64-encoded string: number of data characters (''
            @ lit ''5'' @ lit '') cannot be 1 more than a multiple of 4'' @ [10],
      exit_status = 1\<rparr> \<and>
   main script_name [key_path] (single_file key_path truncated_text) =
     \<lparr>out = [], err = lit ''ERROR: Incorrect padding'' @ [10], exit_status = 1\<rparr> \<and>
   (\<exists>data. b64decode (strip noisy_text) = Inr data)"
proof -
  have r1: "single_file key_path nonascii_text key_path = Content nonascii_text"
    and r2: "single_file key_path one_over_text key_path = Content one_over_text"
    and r3: "single_file key_path truncated_text key_path = Content truncated_text"
    and r4: "single_file key_path noisy_text key_path = Content noisy_text"
    by (simp_all add: single_file_def)
  note t1 = C3_decode_failure [where fs = "single_file key_path nonascii_text"
      and p = key_path and prog = script_name, OF r1]
  note t2 = C3_decode_failure [where fs = "single_file key_path one_over_text"
      and p = key_path and prog = script_name, OF r2]
  note t3 = C3_decode_failure [where fs = "single_file key_path truncated_text"
      and p = key_path and prog = script_name, OF r3]
  note t4 = C3_decode_failure [where fs = "single_file key_path noisy_text"
      and p = key_path and prog = script_name, OF r4]
  have a: "main script_name [key_path] (single_file key_path nonascii_text) =
     \<lparr>out = [],
      err = lit ''ERROR: string argument should contain only ASCII characters'' @ [10],
      exit_status = 1\<rparr>"
    using t1 nonascii_stripped by blast
  have b: "main script_name [key_path] (single_file key_path one_over_text) =
     \<lparr>out = [],
      err = lit ''ERROR: Invalid base64-encoded string: number of data characters (''
            @ lit ''5'' @ lit '') cannot be 1 more than a multiple of 4'' @ [10],
      exit_status = 1\<rparr>"
    using t2 one_over_facts unfolding one_over_count by blast
  have c: "main script_name [key_path] (single_file key_path truncated_text) =
     \<lparr>out = [], err = lit ''ERROR: Incorrect padding'' @ [10], exit_status = 1\<rparr>"
    using t3 truncated_facts by blast
  have cond: "list_all (\<lambda>c. c < 128) (strip noisy_text) \<and>
      (padded_end (strip noisy_text) \<or> data_count (strip noisy_text) mod 4 = 0)"
    using noisy_facts by simp
  from t4 [THEN conjunct2, THEN conjunct2, THEN conjunct2, THEN mp, OF cond]
  have d: "\<exists>data. b64decode (strip noisy_text) = Inr data"
    by (elim exE conjE) (rule exI)
  from a b c d show ?thesis by (simp only: simp_thms)
qed

text \<open>
  C4. Every run ends in one of two ways: with status 0, nothing on standard error and on
  standard output only the hex form of the 32 key bytes and a newline; or with status 1,
  nothing at all on standard output and a diagnostic line on standard error. So every run
  that ends in an error, whatever the error, leaves standard output empty.
\<close>

theorem C4_output_channels:
  "(exit_status (main prog args fs) = 0 \<and> err (main prog args fs) = [] \<and>
    (\<exists>data. 33 \<le> length data \<and>
       out (main prog args fs) = bytes_hex (take 32 (drop 1 data)) @ [10])) \<or>
   (exit_status (main prog args fs) = 1 \<and> out (main prog args fs) = [] \<and>
    (\<exists>msg. err (main prog args fs) = msg @ [10]))"
  using main_outcome [of prog args fs] by auto

theorem C4_output_channels_witness:
  "exit_status (main script_name [lit ''missing.key''] (single_file key_path scenario_text)) = 1 \<and>
   out (main script_name [lit ''missing.key''] (single_file key_path scenario_text)) = []"
proof -
  have rd: "single_file key_path scenario_text (lit ''missing.key'') = FileNotFound"
    by (simp add: single_file_def key_path_def lit_def)
  have st: "exit_status (main script_name [lit ''missing.key''] (single_file key_path scenario_text)) = 1"
    by (simp add: main_not_found [where fs = "single_file key_path scenario_text", OF rd])
  with C4_output_channels [of script_name "[lit ''missing.key'']" "single_file key_path scenario_text"]
  show ?thesis by simp
qed

text \<open>
  C5. On every successful run standard output is exactly one line, 64 lowercase hexadecimal
  characters with nothing between them, followed by a single newline; the exit status is 0
  and nothing is printed on standard error.
\<close>

theorem C5_output_format:
  assumes "exit_status (main prog args fs) = 0"
  shows "\<exists>h. out (main prog args fs) = h @ [10] \<and> length h = 64 \<and> list_all is_lower_hex h \<and>
             err (main prog args fs) = []"
proof -
  from main_outcome [of prog args fs] assms
  obtain data where d: "33 \<le> length data"
    and r: "main prog args fs =
              \<lparr>out = bytes_hex (take 32 (drop 1 data)) @ [10], err = [], exit_status = 0\<rparr>"
    by auto
  have "length (bytes_hex (take 32 (drop 1 data))) = 64"
    using d by (simp add: length_bytes_hex)
  moreover have "list_all is_lower_hex (bytes_hex (take 32 (drop 1 data)))"
    by (rule bytes_hex_lower)
  ultimately show ?thesis
    using r by simp
qed

theorem C5_output_format_witness:
  "exit_status (main script_name [key_path] (single_file key_path scenario_text)) = 0 \<and>
   (\<exists>h. out (main script_name [key_path] (single_file key_path scenario_text)) = h @ [10] \<and>
        length h = 64 \<and> list_all is_lower_hex h \<and>
        err (main script_name [key_path] (single_file key_path scenario_text)) = [])"
proof -
  have rd: "single_file key_path scenario_text key_path = Content scenario_text"
    by (simp add: single_file_def)
  have l: "33 \<le> length scenario_payload"
    by (simp add: scenario_payload_def)
  have st: "exit_status (main script_name [key_path] (single_file key_path scenario_text)) = 0"
    by (simp add: main_success [where fs = "single_file key_path scenario_text" and p = key_path,
          OF rd scenario_decode l])
  from C5_output_format [OF st] st show ?thesis by (simp only: simp_thms)
qed

text \<open>
  C6. For every invocation with no command-line argument or with two or more, the script
  exits with status 1, prints the usage line on standard error and nothing on standard
  output.
\<close>

theorem C6_usage:
  assumes "length args \<noteq> 1"
  shows "main prog args fs =
           \<lparr>out = [], err = lit ''Usage: '' @ prog @ lit '' <key_file_path>'' @ [10],
            exit_status = 1\<rparr>"
  using assms by (rule main_usage)

theorem C6_usage_witness:
  "main script_name [] (single_file key_path scenario_text) =
     \<lparr>out = [], err = lit ''Usage: ./extract_privatekey.py <key_file_path>'' @ [10],
      exit_status = 1\<rparr> \<and>
   main script_name [key_path, key_path] (single_file key_path scenario_text) =
     \<lparr>out = [], err = lit ''Usage: ./extract_privatekey.py <key_file_path>'' @ [10],
      exit_status = 1\<rparr>"
proof -
  have zero: "length ([] :: pystr list) \<noteq> 1" by simp
  have two: "length [key_path, key_path] \<noteq> 1" by simp
  have msg: "lit ''Usage: '' @ script_name @ lit '' <key_file_path>'' @ [10]
           = lit ''Usage: ./extract_privatekey.py <key_file_path>'' @ [10]"
    by (simp add: lit_def script_name_def)
  show ?thesis
    using C6_usage [OF zero, of script_name] C6_usage [OF two, of script_name]
    by (simp only: msg simp_thms)
qed

text \<open>
  C7. As stated (every path that leads to no existing file gets the path-not-found
  diagnostic) the claim fails: the not-found handler catches \<open>FileNotFoundError\<close> only, and
  for a path that runs through a regular file \<open>open\<close> raises \<open>NotADirectoryError\<close>, which
  the generic handler prints.
\<close>

theorem C7_counterexample:
  "\<not> resolves_to_file (notdir_fs notdir_path) \<and>
   main script_name [notdir_path] notdir_fs =
     \<lparr>out = [],
      err = lit ''ERROR: [Errno 20] Not a directory: '' @ [39] @ lit ''regular.key/x'' @ [39, 10],
      exit_status = 1\<rparr> \<and>
   err (main script_name [notdir_path] notdir_fs) \<noteq>
     lit ''ERROR: Key file not found: regular.key/x'' @ [10]"
proof -
  have r: "main script_name [notdir_path] notdir_fs =
     \<lparr>out = [],
      err = lit ''ERROR: [Errno 20] Not a directory: '' @ [39] @ lit ''regular.key/x'' @ [39, 10],
      exit_status = 1\<rparr>"
    using main_not_resolved [where fs = notdir_fs and p = notdir_path, OF notdir_unresolved]
    by (simp add: notdir_message_def notdir_path_def lit_def)
  moreover have "\<not> resolves_to_file (notdir_fs notdir_path)"
    by (simp add: notdir_unresolved resolves_to_file_def)
  moreover have "err (main script_name [notdir_path] notdir_fs) \<noteq>
     lit ''ERROR: Key file not found: regular.key/x'' @ [10]"
    unfolding r by (simp add: lit_def)
  ultimately show ?thesis by (simp only: simp_thms)
qed

text \<open>
  C7, amended. For every path that leads to no existing file, the script prints nothing on
  standard output and exits with status 1; on standard error it prints the not-found
  diagnostic with the path when \<open>open\<close> raises \<open>FileNotFoundError\<close>, and \<open>ERROR:\<close>
  followed by the operating system's message when \<open>open\<close> raises another error for the
  path.
\<close>

theorem C7_missing_file:
  assumes "\<not> resolves_to_file (fs p)"
  shows "out (main prog [p] fs) = [] \<and> exit_status (main prog [p] fs) = 1 \<and>
         (fs p = FileNotFound \<longrightarrow>
            err (main prog [p] fs) = lit ''ERROR: Key file not found: '' @ p @ [10]) \<and>
         (\<forall>msg. fs p = NotResolved msg \<longrightarrow>
            err (main prog [p] fs) = lit ''ERROR: '' @ msg @ [10])"
proof (cases "fs p")
  case FileNotFound
  then show ?thesis by (simp add: main_not_found)
next
  case (NotResolved m)
  then show ?thesis by (simp add: main_not_resolved)
next
  case (ReadError m)
  with assms show ?thesis by (simp add: resolves_to_file_def)
next
  case (Content t)
  with assms show ?thesis by (simp add: resolves_to_file_def)
qed

theorem C7_missing_file_witness:
  "main script_name [lit ''missing.key''] (single_file key_path scenario_text) =
     \<lparr>out = [], err = lit ''ERROR: Key file not found: missing.key'' @ [10], exit_status = 1\<rparr> \<and>
   out (main script_name [notdir_path] notdir_fs) = [] \<and>
   exit_status (main script_name [notdir_path] notdir_fs) = 1 \<and>
   err (main script_name [notdir_path] notdir_fs) = lit ''ERROR: '' @ notdir_message @ [10]"
proof -
  have rd: "single_file key_path scenario_text (lit ''missing.key'') = FileNotFound"
    by (simp add: single_file_def key_path_def lit_def)
  have nf: "\<not> resolves_to_file (single_file key_path scenario_text (lit ''missing.key''))"
    by (simp add: rd resolves_to_file_def)
  have nd: "\<not> resolves_to_file (notdir_fs notdir_path)"
    by (simp add: notdir_unresolved resolves_to_file_def)
  have msg: "lit ''ERROR: Key file not found: '' @ lit ''missing.key'' @ [10]
           = lit ''ERROR: Key file not found: missing.key'' @ [10]"
    by (simp add: lit_def)
  note a = C7_missing_file [where fs = "single_file key_path scenario_text"
        and p = "lit ''missing.key''" and prog = script_name, OF nf]
  note b = C7_missing_file [where fs = notdir_fs and p = notdir_path and prog = script_name, OF nd]
  have "main script_name [lit ''missing.key''] (single_file key_path scenario_text) =
     \<lparr>out = [], err = lit ''ERROR: Key file not found: missing.key'' @ [10], exit_status = 1\<rparr>"
    using a rd msg by (cases "main script_name [lit ''missing.key''] (single_file key_path scenario_text)") simp
  moreover have "err (main script_name [notdir_path] notdir_fs) = lit ''ERROR: '' @ notdir_message @ [10]"
    using b notdir_unresolved by blast
  ultimately show ?thesis using b by (simp only: simp_thms)
qed

text \<open>
  C8. For any text \<open>s\<close> and any leading and trailing whitespace \<open>w1\<close> and \<open>w2\<close>, the
  script run on a file holding \<open>w1 + s + w2\<close> ends exactly as it does on a file holding
  \<open>s\<close> alone (same standard output, same standard error, same exit status); and where
  \<open>s\<close> decodes, the stripped content of the padded file decodes to the same bytes, so
  the surrounding whitespace never causes a decoding failure.
\<close>

theorem C8_surrounding_whitespace:
  assumes "list_all isspace w1" and "list_all isspace w2"
    and "fs1 p1 = Content (w1 @ s @ w2)" and "fs2 p2 = Content s"
  shows "main prog1 [p1] fs1 = main prog2 [p2] fs2 \<and>
         (\<forall>d. b64decode s = Inr d \<longrightarrow> b64decode (strip (w1 @ s @ w2)) = Inr d)"
proof -
  have st: "strip (w1 @ s @ w2) = strip s"
    using assms(1,2) by (rule strip_surround)
  have "main prog1 [p1] fs1 = main prog2 [p2] fs2"
    using assms(3,4) st by (rule main_same_text)
  moreover have "b64decode (strip (w1 @ s @ w2)) = Inr d" if "b64decode s = Inr d" for d
    using that by (simp only: st b64decode_strip)
  ultimately show ?thesis by blast
qed

theorem C8_surrounding_whitespace_witness:
  "main script_name [key_path]
     (single_file key_path ([32, 10] @ scenario_text @ [13, 10, 9])) =
   main script_name [key_path] (single_file key_path scenario_text) \<and>
   main script_name [key_path] (single_file key_path scenario_text) =
     \<lparr>out = scenario_hex @ [10], err = [], exit_status = 0\<rparr> \<and>
   b64decode (strip ([32, 10] @ scenario_text @ [13, 10, 9])) = Inr scenario_payload"
proof -
  have w1: "list_all isspace [32, 10]" by (simp add: isspace_def)
  have w2: "list_all isspace [13, 10, 9]" by (simp add: isspace_def)
  have r1: "single_file key_path ([32, 10] @ scenario_text @ [13, 10, 9]) key_path
            = Content ([32, 10] @ scenario_text @ [13, 10, 9])"
    by (simp add: single_file_def)
  have r2: "single_file key_path scenario_text key_path = Content scenario_text"
    by (simp add: single_file_def)
  have l: "33 \<le> length scenario_payload"
    by (simp add: scenario_payload_def)
  have ok: "main script_name [key_path] (single_file key_path scenario_text) =
     \<lparr>out = scenario_hex @ [10], err = [], exit_status = 0\<rparr>"
    using main_success [where fs = "single_file key_path scenario_text" and p = key_path,
        OF r2 scenario_decode l]
    by (simp only: scenario_key_hex)
  show ?thesis
    using C8_surrounding_whitespace [where ?fs1.0 = "single_file key_path ([32, 10] @ scenario_text @ [13, 10, 9])"
        and ?fs2.0 = "single_file key_path scenario_text" and ?prog1.0 = script_name
        and ?prog2.0 = script_name, OF w1 w2 r1 r2] ok scenario_decode_unstripped
    by (simp only: simp_thms)
qed

text \<open>
  C9. The outcome depends only on bytes 1 to 32 of the decoded payload: two files whose
  decoded contents both have at least 33 bytes and agree at the offsets 1..32 give the same
  standard output, standard error and exit status, whatever the flag byte at offset 0 and
  the bytes from offset 33 on.
\<close>

theorem C9_only_key_bytes:
  assumes "fs1 p1 = Content t1" and "fs2 p2 = Content t2"
    and "b64decode (strip t1) = Inr d1" and "b64decode (strip t2) = Inr d2"
    and "33 \<le> length d1" and "33 \<le> length d2"
    and "\<forall>i \<in> {1..32}. d1 ! i = d2 ! i"
  shows "main prog1 [p1] fs1 = main prog2 [p2] fs2"
proof -
  have "take 32 (drop 1 d1) = take 32 (drop 1 d2)"
  proof (rule nth_equalityI)
    show "length (take 32 (drop 1 d1)) = length (take 32 (drop 1 d2))"
      using assms(5,6) by simp
  next
    fix i assume "i < length (take 32 (drop 1 d1))"
    then have i: "i < 32" by simp
    then have "Suc i \<in> {1..32}" by simp
    with assms(7) have "d1 ! Suc i = d2 ! Suc i" by blast
    with i assms(5,6) show "take 32 (drop 1 d1) ! i = take 32 (drop 1 d2) ! i"
      by simp
  qed
  with main_success [where fs = fs1 and p = p1, OF assms(1,3,5)]
       main_success [where fs = fs2 and p = p2, OF assms(2,4,6)]
  show ?thesis by simp
qed

theorem C9_only_key_bytes_witness:
  "main script_name [key_path] (single_file key_path scenario_text) =
   main script_name [lit ''other.key''] (single_file (lit ''other.key'') other_flag_text)"
proof -
  have r1: "single_file key_path scenario_text key_path = Content scenario_text"
    by (simp add: single_file_def)
  have r2: "single_file (lit ''other.key'') other_flag_text (lit ''other.key'')
            = Content other_flag_text"
    by (simp add: single_file_def)
  have l1: "33 \<le> length scenario_payload"
    by (simp add: scenario_payload_def)
  have l2: "33 \<le> length (0xff # map of_nat [0x01 ..< 0x21] @ [7, 7 :: byte])"
    by simp
  have agree: "\<forall>i \<in> {1..32}.
      scenario_payload ! i = (0xff # map of_nat [0x01 ..< 0x21] @ [7, 7 :: byte]) ! i"
    by code_simp
  show ?thesis
    by (rule C9_only_key_bytes [where ?fs1.0 = "single_file key_path scenario_text"
          and ?fs2.0 = "single_file (lit ''other.key'') other_flag_text",
          OF r1 r2 scenario_decode other_flag_decode l1 l2 agree])
qed

text \<open>
  C10. For every file that exists and is empty or holds only whitespace, the script exits
  with status 1 through the length diagnostic, which reports 0 decoded bytes against the
  minimum of 33, and not through a decoding failure; standard output stays empty.
\<close>

theorem C10_blank_file:
  assumes "fs p = Content t" and "list_all isspace t"
  shows "main prog [p] fs =
           \<lparr>out = [],
            err = lit ''ERROR: Decoded data too short: 0 bytes (expected at least 33)'' @ [10],
            exit_status = 1\<rparr>"
proof -
  have "b64decode (strip t) = Inr []"
    by (simp only: strip_all_space [OF assms(2)] b64decode_empty)
  from main_too_short [where fs = fs and p = p and prog = prog, OF assms(1) this]
  show ?thesis by (simp add: str_nat.simps lit_def)
qed

theorem C10_blank_file_witness:
  "main script_name [key_path] (single_file key_path []) =
     \<lparr>out = [],
      err = lit ''ERROR: Decoded data too short: 0 bytes (expected at least 33)'' @ [10],
      exit_status = 1\<rparr> \<and>
   main script_name [key_path] (single_file key_path [32, 9, 13, 10, 160, 8195, 10]) =
     \<lparr>out = [],
      err = lit ''ERROR: Decoded data too short: 0 bytes (expected at least 33)'' @ [10],
      exit_status = 1\<rparr>"
proof -
  have e: "single_file key_path [] key_path = Content []"
    by (simp add: single_file_def)
  have b: "single_file key_path [32, 9, 13, 10, 160, 8195, 10] key_path
           = Content [32, 9, 13, 10, 160, 8195, 10]"
    by (simp add: single_file_def)
  have es: "list_all isspace []" by simp
  have bs: "list_all isspace [32, 9, 13, 10, 160, 8195, 10]"
    by (simp add: isspace_def)
  show ?thesis
    using C10_blank_file [where fs = "single_file key_path []" and p = key_path
            and prog = script_name, OF e es]
          C10_blank_file [where fs = "single_file key_path [32, 9, 13, 10, 160, 8195, 10]"
            and p = key_path and prog = script_name, OF b bs]
    by (simp only: simp_thms)
qed

end
